theory Spec2Isabelle
  imports Main
begin

section \<open>Python values: exceptions as results\<close>

text \<open>
  Every \<^verbatim>\<open>raise\<close>, failed \<^verbatim>\<open>assert\<close> and library error of
  \<^verbatim>\<open>models/bottleneck.py\<close> is a value \<open>Inl e\<close>; a call that returns is
  \<open>Inr v\<close>. \<open>AssertionError\<close> and \<open>ValueError\<close> carry the message of the source.
  \<open>TorchError\<close> is an exception raised from inside a call of torch. Which class torch
  raises depends on the check and on the release (a RuntimeError for most shape errors; a
  ValueError, an IndexError or a TypeError for some checks in some releases): the model
  records that torch refused, not the class. The other constructors are exceptions of the
  Python interpreter itself.
\<close>

datatype error =
    AssertionError string
  | ValueError string
  | TypeError
  | IndexError
  | AttributeError
  | ZeroDivisionError
  | TorchError

definition ebind :: "error + 'a \<Rightarrow> ('a \<Rightarrow> error + 'b) \<Rightarrow> error + 'b" where
  "ebind r f = (case r of Inl e \<Rightarrow> Inl e | Inr x \<Rightarrow> f x)"

definition py_assert :: "bool \<Rightarrow> string \<Rightarrow> error + unit" where
  "py_assert b msg = (if b then Inr () else Inl (AssertionError msg))"

text \<open>\<^verbatim>\<open>xs[i]\<close> for \<open>i \<ge> 0\<close>: IndexError out of range.\<close>

definition py_index :: "'a list \<Rightarrow> nat \<Rightarrow> error + 'a" where
  "py_index xs i = (if i < length xs then Inr (xs ! i) else Inl IndexError)"

text \<open>\<^verbatim>\<open>xs.pop()\<close>: the last element and the list without it; IndexError on \<open>[]\<close>.\<close>

definition py_pop :: "'a list \<Rightarrow> error + ('a \<times> 'a list)" where
  "py_pop xs = (if xs = [] then Inl IndexError else Inr (last xs, butlast xs))"

text \<open>\<^verbatim>\<open>'%d' % n\<close> for a natural number.\<close>

function str_nat :: "nat \<Rightarrow> string" where
  "str_nat n =
     (if n < 10 then [''0123456789'' ! n]
      else str_nat (n div 10) @ [''0123456789'' ! (n mod 10)])"
  by pat_completeness auto
termination
  by (relation "measure id") auto

declare str_nat.simps [simp del]

section \<open>Tensors and the torch operations the module calls\<close>

text \<open>
  A tensor is its shape and its contents. The contents are floating-point data computed
  by torch kernels under the learned weights; they are kept abstract (type \<open>'v\<close>) and
  every kernel is a field of the record \<open>kernels\<close>, so that a statement about values
  holds for every interpretation of the kernels and every choice of weights. The shape
  rules (which inputs torch accepts, which shape comes out) are written out.
  Device placement is not modelled: all tensors and parameters live on one device.
\<close>

datatype 'v tensor = Tensor (shape: "nat list") (val: 'v)

text \<open>
  A \<open>ConvBlock\<close> is registered in exactly one of the three module lists of \<open>Unet2\<close>;
  its position names its parameters (as the keys of the state dict do).
\<close>

datatype modkey = Encoder nat nat | Decoder nat nat | Remaining nat

record ('v, 'g) kernels =
  conv_val :: "modkey \<Rightarrow> 'v \<Rightarrow> 'v"
  pool_val :: "nat \<Rightarrow> 'v \<Rightarrow> 'v"
  up_val :: "nat \<Rightarrow> 'v \<Rightarrow> 'v"
  cat_val :: "nat \<Rightarrow> 'v list \<Rightarrow> 'v"
  unsqueeze_val :: "nat \<Rightarrow> 'v \<Rightarrow> 'v"
  select_val :: "nat \<Rightarrow> 'v \<Rightarrow> 'v"
  view_val :: "nat list \<Rightarrow> 'v \<Rightarrow> 'v"
  lstm_val :: "'v \<Rightarrow> 'v \<Rightarrow> 'v \<Rightarrow> 'v"
  spatial_transformer :: "'v tensor \<Rightarrow> 'v tensor \<Rightarrow> error + 'v tensor"
  randn_val :: "'g \<Rightarrow> nat list \<Rightarrow> 'v \<times> 'g"

text \<open>
  The shape rules below are those of torch for tensors with at least one element. For a
  tensor with an empty batch or with no channel, whether pooling and upsampling return
  depends on the release of torch: the theorems on the shapes of encode and decode assume
  a non-empty batch and positive channel counts.
\<close>

text \<open>
  \<^verbatim>\<open>nn.Conv{n}d(cin, cout, 3, stride, 1)\<close>: kernel 3, padding 1. The input is
  batched (rank \<open>n + 2\<close>) or unbatched (rank \<open>n + 1\<close>); its channel count must be
  \<open>cin\<close>; a spatial extent \<open>d \<ge> 1\<close> becomes \<open>(d + 2 - 3) div stride + 1\<close>, and the
  padded extent of \<open>d = 0\<close> is smaller than the kernel, which raises, as a stride of
  zero and a convolution with no output channel do.
\<close>

definition conv_shape :: "nat \<Rightarrow> nat \<Rightarrow> nat \<Rightarrow> nat \<Rightarrow> nat list \<Rightarrow> error + nat list" where
  "conv_shape nd cin cout stride sh =
     (if stride = 0 \<or> cout = 0 then Inl TorchError
      else if length sh = nd + 2 \<or> length sh = nd + 1 then
        (let lead = take (length sh - Suc nd) sh; sp = drop (length sh - nd) sh
         in if sh ! (length sh - Suc nd) = cin \<and> list_all (\<lambda>d. 1 \<le> d) sp
            then Inr (lead @ cout # map (\<lambda>d. (d - 1) div stride + 1) sp)
            else Inl TorchError)
      else Inl TorchError)"

text \<open>
  \<^verbatim>\<open>nn.MaxPool{n}d(s)\<close>: kernel \<open>s\<close>, stride \<open>s\<close>, no padding, floor mode. A
  spatial extent \<open>d \<ge> s\<close> becomes \<open>(d - s) div s + 1 = d div s\<close>: the remainder is
  dropped silently. An output extent of zero (\<open>d < s\<close>) and \<open>s = 0\<close> raise.
\<close>

definition pool_shape :: "nat \<Rightarrow> nat \<Rightarrow> nat list \<Rightarrow> error + nat list" where
  "pool_shape nd s sh =
     (if s = 0 then Inl TorchError
      else if length sh = nd + 2 \<or> length sh = nd + 1 then
        (let lead = take (length sh - nd) sh; sp = drop (length sh - nd) sh
         in if list_all (\<lambda>d. s \<le> d) sp
            then Inr (lead @ map (\<lambda>d. (d - s) div s + 1) sp)
            else Inl TorchError)
      else Inl TorchError)"

text \<open>
  \<^verbatim>\<open>nn.Upsample(scale_factor=s, mode='nearest')\<close>: the input has rank 3, 4 or 5
  (batch, channels, then the spatial extents, whatever \<open>ndims\<close> the network was built
  for); every spatial extent \<open>d\<close> becomes \<open>d * s\<close>, which must be positive (a factor
  of zero is refused when the module is called).
\<close>

definition upsample_shape :: "nat \<Rightarrow> nat list \<Rightarrow> error + nat list" where
  "upsample_shape s sh =
     (if length sh \<in> {3, 4, 5} then
        (let sp = map (\<lambda>d. d * s) (drop 2 sh)
         in if list_all (\<lambda>d. 0 < d) sp then Inr (take 2 sh @ sp) else Inl TorchError)
      else Inl TorchError)"

text \<open>
  \<^verbatim>\<open>torch.cat(ts, dim)\<close>: the list is not empty. Tensors of shape \<open>[0]\<close> are
  skipped; when none is left the result has shape \<open>[0]\<close>. Otherwise \<open>dim\<close> is a
  dimension of the first tensor that is left, and all of them agree with it in rank and
  in every extent but \<open>dim\<close>; the extents at \<open>dim\<close> add up. Anything else is refused by
  torch (the empty list with a ValueError in current releases, with a RuntimeError in
  older ones).
\<close>

definition cat_skipped :: "nat list \<Rightarrow> bool" where
  "cat_skipped sh = (sh = [0])"

definition cat_compatible :: "nat \<Rightarrow> nat list \<Rightarrow> nat list \<Rightarrow> bool" where
  "cat_compatible dim sh sh' =
     (length sh' = length sh \<and> take dim sh' = take dim sh \<and> drop (Suc dim) sh' = drop (Suc dim) sh)"

definition cat_shape :: "nat list list \<Rightarrow> nat \<Rightarrow> error + nat list" where
  "cat_shape shs dim =
     (if shs = [] then Inl TorchError
      else case filter (\<lambda>sh. \<not> cat_skipped sh) shs of
        [] \<Rightarrow> Inr [0]
      | sh # rest \<Rightarrow>
          if length sh \<le> dim then Inl TorchError
          else if list_all (cat_compatible dim sh) rest
          then Inr (take dim sh @ sum_list (map (\<lambda>s. s ! dim) (sh # rest)) # drop (Suc dim) sh)
          else Inl TorchError)"

definition torch_cat :: "('v, 'g) kernels \<Rightarrow> 'v tensor list \<Rightarrow> nat \<Rightarrow> error + 'v tensor" where
  "torch_cat K ts dim =
     ebind (cat_shape (map shape ts) dim) (\<lambda>sh.
       Inr (Tensor sh (cat_val K dim (map val ts))))"

text \<open>\<^verbatim>\<open>t.unsqueeze(0)\<close>.\<close>

definition unsqueeze0 :: "('v, 'g) kernels \<Rightarrow> 'v tensor \<Rightarrow> 'v tensor" where
  "unsqueeze0 K t = Tensor (1 # shape t) (unsqueeze_val K 0 (val t))"

text \<open>
  \<^verbatim>\<open>t[i]\<close> for \<open>i \<ge> 0\<close>, and iteration over a tensor: the slices along dimension 0.
  A tensor of rank 0 has none.
\<close>

definition select0 :: "('v, 'g) kernels \<Rightarrow> 'v tensor \<Rightarrow> nat \<Rightarrow> error + 'v tensor" where
  "select0 K t i =
     (case shape t of
        [] \<Rightarrow> Inl TorchError
      | n # sh \<Rightarrow> if i < n then Inr (Tensor sh (select_val K i (val t))) else Inl TorchError)"

definition unbind0 :: "('v, 'g) kernels \<Rightarrow> 'v tensor \<Rightarrow> error + 'v tensor list" where
  "unbind0 K t =
     (case shape t of
        [] \<Rightarrow> Inl TorchError
      | n # sh \<Rightarrow> Inr (map (\<lambda>i. Tensor sh (select_val K i (val t))) [0..<n]))"

text \<open>\<^verbatim>\<open>t.view(sh)\<close> with explicit extents: the number of elements is kept.\<close>

definition torch_view :: "('v, 'g) kernels \<Rightarrow> 'v tensor \<Rightarrow> nat list \<Rightarrow> error + 'v tensor" where
  "torch_view K t sh =
     (if prod_list sh = prod_list (shape t) then Inr (Tensor sh (view_val K sh (val t)))
      else Inl TorchError)"

section \<open>ConvBlock\<close>

record convblock =
  cb_ndims :: nat
  in_channels :: nat
  out_channels :: nat
  cb_stride :: nat
  cb_key :: modkey

text \<open>
  \<^verbatim>\<open>ConvBlock(ndims, in_channels, out_channels, stride=1)\<close>. \<open>in_channels\<close> is
  \<open>None\<close> when \<open>Unet2\<close> was given no \<open>infeats\<close>: the convolution's constructor then
  refuses it.
\<close>

definition ConvBlock_init :: "modkey \<Rightarrow> nat \<Rightarrow> nat option \<Rightarrow> nat \<Rightarrow> nat \<Rightarrow> error + convblock" where
  "ConvBlock_init key ndims inc outc stride =
     (case inc of
        None \<Rightarrow> Inl TorchError
      | Some i \<Rightarrow>
          Inr \<lparr>cb_ndims = ndims, in_channels = i, out_channels = outc,
               cb_stride = stride, cb_key = key\<rparr>)"

text \<open>\<^verbatim>\<open>ConvBlock.forward\<close>: the convolution, then LeakyReLU(0.2), which keeps the shape.\<close>

definition ConvBlock_forward :: "('v, 'g) kernels \<Rightarrow> convblock \<Rightarrow> 'v tensor \<Rightarrow> error + 'v tensor" where
  "ConvBlock_forward K b x =
     ebind (conv_shape (cb_ndims b) (in_channels b) (out_channels b) (cb_stride b) (shape x)) (\<lambda>sh.
       Inr (Tensor sh (conv_val K (cb_key b) (val x))))"

text \<open>\<^verbatim>\<open>for conv in convs: x = conv(x)\<close>\<close>

fun run_convs :: "('v, 'g) kernels \<Rightarrow> convblock list \<Rightarrow> 'v tensor \<Rightarrow> error + 'v tensor" where
  "run_convs K [] x = Inr x"
| "run_convs K (conv # convs) x = ebind (ConvBlock_forward K conv x) (run_convs K convs)"

section \<open>Unet2\<close>

subsection \<open>Construction\<close>

text \<open>
  The arguments of \<^verbatim>\<open>Unet2.__init__\<close>. \<open>nb_features\<close> is \<open>None\<close>, an integer or
  a list of feature lists; \<open>max_pool\<close> is an integer or a list. Feature counts, extents
  and factors are natural numbers; \<open>feat_mult\<close> is taken to be an integer, so that the
  rounding of \<^verbatim>\<open>np.round(...).astype(int)\<close> is the identity. The automatic feature
  widths are computed exactly: the wrap-around of numpy's 64-bit integers for widths of
  \<open>2 ^ 63\<close> and more is not modelled.
\<close>

datatype nb_features_arg = NoFeatures | IntFeatures nat | ListFeatures "nat list list"

datatype max_pool_arg = IntPool nat | ListPool "nat list"

record unet2_args =
  inshape :: "nat list option"
  infeats :: "nat option"
  nb_features :: nb_features_arg
  arg_nb_levels :: "nat option"
  max_pool :: max_pool_arg
  feat_mult :: nat
  nb_conv_per_level :: nat
  arg_half_res :: bool

text \<open>The defaults of the signature; \<open>Unet2_defaults\<lparr>inshape := \<dots>\<rparr>\<close> is a keyword call.\<close>

definition Unet2_defaults :: unet2_args where
  "Unet2_defaults =
     \<lparr>inshape = None, infeats = None, nb_features = NoFeatures, arg_nb_levels = None,
      max_pool = IntPool 2, feat_mult = 1, nb_conv_per_level = 1, arg_half_res = False\<rparr>"

datatype maxpool = MaxPool nat nat

datatype upsample = Upsample nat

record unet2 =
  half_res :: bool
  nb_levels :: nat
  pooling :: "maxpool list"
  upsampling :: "upsample list"
  encoder :: "convblock list list"
  decoder :: "convblock list list"
  remaining :: "convblock list"
  final_nf :: "nat option"

text \<open>\<^verbatim>\<open>np.repeat(xs, k)\<close>: every element \<open>k\<close> times, in order.\<close>

definition np_repeat :: "'a list \<Rightarrow> nat \<Rightarrow> 'a list" where
  "np_repeat xs k = concat (map (replicate k) xs)"

text \<open>\<^verbatim>\<open>enc_nf, dec_nf = nb_features\<close>\<close>

definition unpack2 :: "'a list \<Rightarrow> error + ('a \<times> 'a)" where
  "unpack2 xs =
     (case xs of
        [a, b] \<Rightarrow> Inr (a, b)
      | _ \<Rightarrow>
          if length xs < 2
          then Inl (ValueError (''not enough values to unpack (expected 2, got ''
                                 @ str_nat (length xs) @ '')''))
          else Inl (ValueError ''too many values to unpack (expected 2)''))"

text \<open>\<^verbatim>\<open>prev_nf += encoder_nfs[level]\<close>, where either side may be \<open>None\<close>.\<close>

definition py_add :: "nat option \<Rightarrow> nat option \<Rightarrow> error + nat option" where
  "py_add a b = (case (a, b) of (Some x, Some y) \<Rightarrow> Inr (Some (x + y)) | _ \<Rightarrow> Inl TypeError)"

text \<open>
  The inner loop of the encoder and of the decoder,
  \<^verbatim>\<open>for conv in range(nb_conv_per_level)\<close>, at the level whose first feature has
  index \<open>base = level * nb_conv_per_level\<close>.
\<close>

fun build_convs ::
  "(nat \<Rightarrow> modkey) \<Rightarrow> nat \<Rightarrow> nat list \<Rightarrow> nat \<Rightarrow> nat list \<Rightarrow> nat option
     \<Rightarrow> error + (convblock list \<times> nat option)" where
  "build_convs key ndims nfs base [] prev_nf = Inr ([], prev_nf)"
| "build_convs key ndims nfs base (conv # cs) prev_nf =
     ebind (py_index nfs (base + conv)) (\<lambda>nf.
     ebind (ConvBlock_init (key conv) ndims prev_nf nf 1) (\<lambda>b.
     ebind (build_convs key ndims nfs base cs (Some nf)) (\<lambda>(bs, p).
       Inr (b # bs, p))))"

text \<open>
  The encoder loop over \<^verbatim>\<open>range(self.nb_levels - 1)\<close>: the module list, the
  feature counts appended to \<open>encoder_nfs\<close>, and \<open>prev_nf\<close> at the end.
\<close>

fun build_encoder ::
  "nat \<Rightarrow> nat list \<Rightarrow> nat \<Rightarrow> nat list \<Rightarrow> nat option
     \<Rightarrow> error + (convblock list list \<times> nat option list \<times> nat option)" where
  "build_encoder ndims enc_nf k [] prev_nf = Inr ([], [], prev_nf)"
| "build_encoder ndims enc_nf k (level # ls) prev_nf =
     ebind (build_convs (Encoder level) ndims enc_nf (level * k) [0..<k] prev_nf) (\<lambda>(convs, prev_nf).
     ebind (build_encoder ndims enc_nf k ls prev_nf) (\<lambda>(enc, nfs, p).
       Inr (convs # enc, prev_nf # nfs, p)))"

text \<open>
  The decoder loop; \<open>encoder_nfs\<close> is the flipped list. A level is followed by a skip
  connection unless \<open>half_res\<close> is set and the level is the last one.
\<close>

definition has_skip :: "bool \<Rightarrow> nat \<Rightarrow> nat \<Rightarrow> bool" where
  "has_skip hr nbl level = (\<not> hr \<or> int level < int nbl - 2)"

fun build_decoder ::
  "nat \<Rightarrow> nat list \<Rightarrow> nat \<Rightarrow> bool \<Rightarrow> nat \<Rightarrow> nat option list \<Rightarrow> nat list \<Rightarrow> nat option
     \<Rightarrow> error + (convblock list list \<times> nat option)" where
  "build_decoder ndims dec_nf k hr nbl encoder_nfs [] prev_nf = Inr ([], prev_nf)"
| "build_decoder ndims dec_nf k hr nbl encoder_nfs (level # ls) prev_nf =
     ebind (build_convs (Decoder level) ndims dec_nf (level * k) [0..<k] prev_nf) (\<lambda>(convs, prev_nf).
     ebind (if has_skip hr nbl level
            then ebind (py_index encoder_nfs level) (py_add prev_nf)
            else Inr prev_nf) (\<lambda>prev_nf.
     ebind (build_decoder ndims dec_nf k hr nbl encoder_nfs ls prev_nf) (\<lambda>(dec, p).
       Inr (convs # dec, p))))"

text \<open>\<^verbatim>\<open>for num, nf in enumerate(final_convs)\<close>\<close>

fun build_remaining ::
  "nat \<Rightarrow> nat \<Rightarrow> nat list \<Rightarrow> nat option \<Rightarrow> error + (convblock list \<times> nat option)" where
  "build_remaining ndims num [] prev_nf = Inr ([], prev_nf)"
| "build_remaining ndims num (nf # nfs) prev_nf =
     ebind (ConvBlock_init (Remaining num) ndims prev_nf nf 1) (\<lambda>b.
     ebind (build_remaining ndims (Suc num) nfs (Some nf)) (\<lambda>(bs, p).
       Inr (b # bs, p)))"

text \<open>
  The feature lists: the defaults when nothing is given, the automatic lists when
  \<open>nb_features\<close> is an integer (\<open>nb_levels\<close> is then required), the given lists
  otherwise (\<open>nb_levels\<close> is then refused).
\<close>

definition feature_lists :: "unet2_args \<Rightarrow> error + nat list list" where
  "feature_lists a =
     (case nb_features a of
        IntFeatures n \<Rightarrow>
          (case arg_nb_levels a of
             None \<Rightarrow> Inl (ValueError ''must provide unet nb_levels if nb_features is an integer'')
           | Some l \<Rightarrow>
               let feats = map (\<lambda>i. n * feat_mult a ^ i) [0..<l]
               in Inr [np_repeat (butlast feats) (nb_conv_per_level a),
                       np_repeat (rev feats) (nb_conv_per_level a)])
      | other \<Rightarrow>
          (case arg_nb_levels a of
             Some l \<Rightarrow> Inl (ValueError ''cannot use nb_levels if nb_features is not an integer'')
           | None \<Rightarrow>
               Inr (case other of
                      ListFeatures fs \<Rightarrow> fs
                    | _ \<Rightarrow> [[16, 32, 32, 32], [32, 32, 32, 32, 32, 16, 16]])))"

definition Unet2_init :: "unet2_args \<Rightarrow> error + unet2" where
  "Unet2_init a =
     (case inshape a of
        None \<Rightarrow> Inl TypeError
      | Some shp \<Rightarrow>
          let ndims = length shp in
          ebind (py_assert (ndims \<in> set [1, 2, 3])
                   (''ndims should be one of 1, 2, or 3. found: '' @ str_nat ndims)) (\<lambda>_.
          ebind (feature_lists a) (\<lambda>fs.
          ebind (unpack2 fs) (\<lambda>(enc_nf, dec_nf).
          let nb_dec_convs = length enc_nf;
              final_convs = drop nb_dec_convs dec_nf;
              dec_nf = take nb_dec_convs dec_nf;
              k = nb_conv_per_level a
          in if k = 0 then Inl ZeroDivisionError
             else
               let nbl = nb_dec_convs div k + 1;
                   mp = (case max_pool a of IntPool s \<Rightarrow> replicate nbl s | ListPool ss \<Rightarrow> ss)
               in
               ebind (build_encoder ndims enc_nf k [0..<nbl - 1] (infeats a)) (\<lambda>(enc, nfs, prev_nf).
               let encoder_nfs = rev (infeats a # nfs) in
               ebind (build_decoder ndims dec_nf k (arg_half_res a) nbl encoder_nfs [0..<nbl - 1] prev_nf)
                 (\<lambda>(dec, prev_nf).
               ebind (build_remaining ndims 0 final_convs prev_nf) (\<lambda>(rem, prev_nf).
                 Inr \<lparr>half_res = arg_half_res a, nb_levels = nbl,
                      pooling = map (MaxPool ndims) mp, upsampling = map Upsample mp,
                      encoder = enc, decoder = dec, remaining = rem,
                      final_nf = prev_nf\<rparr>)))))))"

subsection \<open>The forward pass\<close>

definition MaxPool_forward :: "('v, 'g) kernels \<Rightarrow> maxpool \<Rightarrow> 'v tensor \<Rightarrow> error + 'v tensor" where
  "MaxPool_forward K p x =
     (case p of MaxPool nd s \<Rightarrow>
        ebind (pool_shape nd s (shape x)) (\<lambda>sh. Inr (Tensor sh (pool_val K s (val x)))))"

definition Upsample_forward :: "('v, 'g) kernels \<Rightarrow> upsample \<Rightarrow> 'v tensor \<Rightarrow> error + 'v tensor" where
  "Upsample_forward K p x =
     (case p of Upsample s \<Rightarrow>
        ebind (upsample_shape s (shape x)) (\<lambda>sh. Inr (Tensor sh (up_val K s (val x)))))"

text \<open>
  What \<^verbatim>\<open>forward\<close> returns: the pair of the encode task, the tensor of the decode
  task, or \<open>None\<close>.
\<close>

datatype 'v ret = Encoded "'v tensor" "'v tensor list" | Decoded "'v tensor" | PyNone

text \<open>
  The encoder loop \<^verbatim>\<open>for level, convs in enumerate(self.encoder)\<close>; \<open>h\<close> is
  \<open>x_history\<close>, appended to at its end.
\<close>

fun encode_levels ::
  "('v, 'g) kernels \<Rightarrow> unet2 \<Rightarrow> nat \<Rightarrow> convblock list list \<Rightarrow> 'v tensor \<Rightarrow> 'v tensor list
     \<Rightarrow> error + ('v tensor \<times> 'v tensor list)" where
  "encode_levels K u level [] x h = Inr (x, h)"
| "encode_levels K u level (convs # rest) x h =
     ebind (run_convs K convs x) (\<lambda>x.
     ebind (py_index (pooling u) level) (\<lambda>p.
     ebind (MaxPool_forward K p x) (\<lambda>x'.
       encode_levels K u (Suc level) rest x' (h @ [x]))))"

text \<open>
  The decoder loop \<^verbatim>\<open>for level, convs in enumerate(self.decoder)\<close>. The list
  \<open>h\<close> is the caller's \<open>x_history_\<close>, popped in place: the loop returns what is left.
\<close>

fun decode_levels ::
  "('v, 'g) kernels \<Rightarrow> unet2 \<Rightarrow> nat \<Rightarrow> convblock list list \<Rightarrow> 'v tensor \<Rightarrow> 'v tensor list
     \<Rightarrow> error + ('v tensor \<times> 'v tensor list)" where
  "decode_levels K u level [] x h = Inr (x, h)"
| "decode_levels K u level (convs # rest) x h =
     ebind (run_convs K convs x) (\<lambda>x.
       if has_skip (half_res u) (nb_levels u) level then
         ebind (py_index (upsampling u) level) (\<lambda>up.
         ebind (Upsample_forward K up x) (\<lambda>x.
         ebind (py_pop h) (\<lambda>(top, h).
         ebind (torch_cat K [x, top] 1) (\<lambda>x.
           decode_levels K u (Suc level) rest x h))))
       else decode_levels K u (Suc level) rest x h)"

text \<open>
  \<^verbatim>\<open>Unet2.forward(x, task, x_history_=None)\<close>. The result is the returned value
  together with the caller's \<open>x_history_\<close> after the call (the decode task mutates it).
\<close>

definition Unet2_forward ::
  "('v, 'g) kernels \<Rightarrow> unet2 \<Rightarrow> 'v tensor \<Rightarrow> string \<Rightarrow> 'v tensor list option
     \<Rightarrow> error + ('v ret \<times> 'v tensor list option)" where
  "Unet2_forward K u x task x_history_in =
     (if task = ''encode'' then
        ebind (encode_levels K u 0 (encoder u) x [x]) (\<lambda>(x, x_history).
          Inr (Encoded x x_history, x_history_in))
      else if task = ''decode'' then
        (case x_history_in of
           None \<Rightarrow> Inl (AssertionError ''x_history_ is None.'')
         | Some x_history \<Rightarrow>
             ebind (decode_levels K u 0 (decoder u) x x_history) (\<lambda>(x, x_history).
             ebind (run_convs K (remaining u) x) (\<lambda>x.
               Inr (Decoded x, Some x_history))))
      else Inr (PyNone, x_history_in))"

section \<open>Bottleneck\<close>

text \<open>
  \<^verbatim>\<open>nn.LSTM(input_size, hidden_size, batch_first=False)\<close>, one layer. Its
  constructor refuses a hidden size of zero (in current releases). Called on a sequence
  of shape \<open>(T, bs, input_size)\<close> with initial states of shape \<open>(1, bs, hidden_size)\<close> it
  returns the output sequence of shape \<open>(T, bs, hidden_size)\<close>; the final states are
  dropped by the caller. Any other shape raises.
\<close>

datatype lstm = LSTM nat nat

definition LSTM_init :: "nat \<Rightarrow> nat \<Rightarrow> error + lstm" where
  "LSTM_init isz hsz =
     (if hsz = 0 then Inl TorchError else Inr (LSTM isz hsz))"

definition LSTM_forward ::
  "('v, 'g) kernels \<Rightarrow> lstm \<Rightarrow> 'v tensor \<Rightarrow> 'v tensor \<Rightarrow> 'v tensor \<Rightarrow> error + 'v tensor" where
  "LSTM_forward K l x h_0 c_0 =
     (case l of LSTM isz hsz \<Rightarrow>
        (case shape x of
           [T, bs, n] \<Rightarrow>
             if n = isz \<and> shape h_0 = [1, bs, hsz] \<and> shape c_0 = [1, bs, hsz]
             then Inr (Tensor [T, bs, hsz] (lstm_val K (val x) (val h_0) (val c_0)))
             else Inl TorchError
         | _ \<Rightarrow> Inl TorchError))"

text \<open>\<^verbatim>\<open>torch.randn(sh)\<close>: a draw from the global generator, whose state \<open>g\<close> advances.\<close>

definition torch_randn :: "('v, 'g) kernels \<Rightarrow> 'g \<Rightarrow> nat list \<Rightarrow> 'v tensor \<times> 'g" where
  "torch_randn K g sh = (case randn_val K g sh of (v, g') \<Rightarrow> (Tensor sh v, g'))"

text \<open>\<^verbatim>\<open>t.view(a, b, -1)\<close>: the last extent is inferred from the number of elements.\<close>

definition torch_view_infer ::
  "('v, 'g) kernels \<Rightarrow> 'v tensor \<Rightarrow> nat \<Rightarrow> nat \<Rightarrow> error + 'v tensor" where
  "torch_view_infer K t a b =
     (let n = prod_list (shape t)
      in if a * b = 0 \<or> n mod (a * b) \<noteq> 0 then Inl TorchError
         else Inr (Tensor [a, b, n div (a * b)] (view_val K [a, b, n div (a * b)] (val t))))"

text \<open>\<^verbatim>\<open>T, bs, C, W, H = encoder_out.shape\<close>\<close>

definition unpack5 :: "nat list \<Rightarrow> error + (nat \<times> nat \<times> nat \<times> nat \<times> nat)" where
  "unpack5 sh =
     (case sh of
        [a, b, c, d, e] \<Rightarrow> Inr (a, b, c, d, e)
      | _ \<Rightarrow>
          if length sh < 5
          then Inl (ValueError (''not enough values to unpack (expected 5, got ''
                                 @ str_nat (length sh) @ '')''))
          else Inl (ValueError ''too many values to unpack (expected 5)''))"

record bottleneck =
  image_size :: "nat list"
  ndims :: nat
  unet :: unet2
  input_size :: nat
  hidden_size :: nat
  lstm :: lstm

text \<open>
  \<^verbatim>\<open>Bottleneck.__init__(image_size)\<close>. The spatial transformer comes from
  another module, \<^verbatim>\<open>utils.spatial_transform\<close>; what it computes from a source and
  a flow is the field \<open>spatial_transformer\<close> of the kernels.
\<close>

definition Bottleneck_init :: "nat list \<Rightarrow> error + bottleneck" where
  "Bottleneck_init isize =
     (let enc_nf = [16, 32, 32, 32, 64];
          dec_nf = [64, 32, 32, 32, 32, 16, 16, 8, 2]
      in
      ebind (Unet2_init (Unet2_defaults\<lparr>inshape := Some isize, infeats := Some 2,
                           nb_features := ListFeatures [enc_nf, dec_nf]\<rparr>)) (\<lambda>u.
      let C = last enc_nf in
      ebind (py_index isize 0) (\<lambda>w0.
      ebind (py_index isize 1) (\<lambda>h0.
      let W = w0 div 2 ^ length enc_nf;
          H = h0 div 2 ^ length enc_nf
      in
      ebind (LSTM_init (C * W * H) (C * W * H)) (\<lambda>l.
        Inr \<lparr>image_size = isize, ndims = length isize, unet = u,
             input_size = C * W * H, hidden_size = C * W * H, lstm = l\<rparr>)))))"

text \<open>
  The first loop of \<^verbatim>\<open>forward\<close>, over \<^verbatim>\<open>zip(images[:-1], images[1:])\<close>: one
  encode per pair of consecutive frames, giving \<open>X\<close> and \<open>X_history\<close>.
\<close>

definition encode_pair ::
  "('v, 'g) kernels \<Rightarrow> bottleneck \<Rightarrow> 'v tensor \<times> 'v tensor \<Rightarrow> error + ('v tensor \<times> 'v tensor list)" where
  "encode_pair K m p =
     (case p of (src, trg) \<Rightarrow>
        ebind (torch_cat K [src, trg] 1) (\<lambda>x.
        ebind (Unet2_forward K (unet m) x ''encode'' None) (\<lambda>(r, _).
          case r of
            Encoded x x_history \<Rightarrow> Inr (unsqueeze0 K x, x_history)
          | _ \<Rightarrow> Inl TypeError)))"

fun encode_pairs ::
  "('v, 'g) kernels \<Rightarrow> bottleneck \<Rightarrow> ('v tensor \<times> 'v tensor) list
     \<Rightarrow> error + ('v tensor list \<times> 'v tensor list list)" where
  "encode_pairs K m [] = Inr ([], [])"
| "encode_pairs K m (p # ps) =
     ebind (encode_pair K m p) (\<lambda>(x, x_history).
     ebind (encode_pairs K m ps) (\<lambda>(X, X_history).
       Inr (x # X, x_history # X_history)))"

text \<open>
  Lines 31 to 36: the frames of \<open>images\<close>, the stacked encoder output and the
  histories. \<^verbatim>\<open>images[:-1]\<close> and \<^verbatim>\<open>images[1:]\<close> iterate over all frames but
  the last and all but the first.
\<close>

definition encode_stage ::
  "('v, 'g) kernels \<Rightarrow> bottleneck \<Rightarrow> 'v tensor
     \<Rightarrow> error + ('v tensor list \<times> 'v tensor \<times> 'v tensor list list)" where
  "encode_stage K m images =
     ebind (unbind0 K images) (\<lambda>frames.
     ebind (encode_pairs K m (zip (butlast frames) (tl frames))) (\<lambda>(X, X_history).
     ebind (torch_cat K X 0) (\<lambda>encoder_out.
       Inr (frames, encoder_out, X_history))))"

text \<open>
  Line 50: one decode per time step \<open>i\<close>, with \<open>X_history[i]\<close>, which the call pops in
  place.
\<close>

fun decode_steps ::
  "('v, 'g) kernels \<Rightarrow> bottleneck \<Rightarrow> 'v tensor \<Rightarrow> 'v tensor list list \<Rightarrow> nat list
     \<Rightarrow> error + ('v tensor list \<times> 'v tensor list list)" where
  "decode_steps K m lstm_out X_history [] = Inr ([], X_history)"
| "decode_steps K m lstm_out X_history (i # is) =
     ebind (select0 K lstm_out i) (\<lambda>x.
     ebind (py_index X_history i) (\<lambda>h.
     ebind (Unet2_forward K (unet m) x ''decode'' (Some h)) (\<lambda>(r, h').
       case r of
         Decoded y \<Rightarrow>
           ebind (decode_steps K m lstm_out
                    (case h' of Some l \<Rightarrow> X_history[i := l] | None \<Rightarrow> X_history) is) (\<lambda>(Y, X_history).
             Inr (unsqueeze0 K y # Y, X_history))
       | _ \<Rightarrow> Inl AttributeError)))"

text \<open>Lines 54 to 59: the spatial transformer on every pair of a source and its flow.\<close>

fun warp_all ::
  "('v, 'g) kernels \<Rightarrow> ('v tensor \<times> 'v tensor) list \<Rightarrow> error + 'v tensor list" where
  "warp_all K [] = Inr []"
| "warp_all K (p # ps) =
     ebind (spatial_transformer K (fst p) (snd p)) (\<lambda>w.
     ebind (warp_all K ps) (\<lambda>ws.
       Inr (unsqueeze0 K w # ws)))"

text \<open>
  The two draws of lines 44 and 45, in order, from the generator state \<open>g\<close>.
\<close>

definition initial_state ::
  "('v, 'g) kernels \<Rightarrow> bottleneck \<Rightarrow> nat \<Rightarrow> 'g \<Rightarrow> 'v tensor \<times> 'v tensor \<times> 'g" where
  "initial_state K m bs g =
     (case torch_randn K g [1, bs, hidden_size m] of (h_0, g1) \<Rightarrow>
      case torch_randn K g1 [1, bs, hidden_size m] of (c_0, g2) \<Rightarrow>
        (h_0, c_0, g2))"

text \<open>
  Lines 38 to 55, from the stacked encoder output to the flow and the warped images,
  given the initial recurrent state.
\<close>

definition recurrent_stage ::
  "('v, 'g) kernels \<Rightarrow> bottleneck \<Rightarrow> 'v tensor list \<Rightarrow> 'v tensor \<Rightarrow> 'v tensor list list
     \<Rightarrow> 'v tensor \<Rightarrow> 'v tensor \<Rightarrow> nat \<times> nat \<times> nat \<times> nat \<times> nat
     \<Rightarrow> error + ('v tensor \<times> 'v tensor list \<times> 'v tensor)" where
  "recurrent_stage K m frames encoder_out X_history h_0 c_0 dims =
     (case dims of (T, bs, C, W, H) \<Rightarrow>
        ebind (torch_view_infer K encoder_out T bs) (\<lambda>inp.
        ebind (LSTM_forward K (lstm m) inp h_0 c_0) (\<lambda>lstm_out.
        ebind (torch_view K lstm_out [T, bs, C, W, H]) (\<lambda>lstm_out.
        ebind (decode_steps K m lstm_out X_history [0..<T]) (\<lambda>(Y, X_history).
        ebind (torch_cat K Y 0) (\<lambda>flow.
        ebind (unbind0 K flow) (\<lambda>flows.
        ebind (warp_all K (zip (butlast frames) flows)) (\<lambda>ws.
        ebind (torch_cat K ws 0) (\<lambda>moved_images.
          Inr (moved_images, flows, flow))))))))))"

text \<open>
  \<^verbatim>\<open>Bottleneck.forward(images, labels=None)\<close>, from the generator state \<open>g\<close>; the
  result is the returned list and the generator state after the call.
\<close>

definition Bottleneck_forward ::
  "('v, 'g) kernels \<Rightarrow> bottleneck \<Rightarrow> 'v tensor \<Rightarrow> 'v tensor option \<Rightarrow> 'g
     \<Rightarrow> error + ('v tensor list \<times> 'g)" where
  "Bottleneck_forward K m images labels g =
     ebind (encode_stage K m images) (\<lambda>(frames, encoder_out, X_history).
     ebind (unpack5 (shape encoder_out)) (\<lambda>(T, bs, C, W, H).
     ebind (py_assert (bs = 1) []) (\<lambda>_.
     ebind (py_assert (T = 39) []) (\<lambda>_.
     case initial_state K m bs g of (h_0, c_0, g') \<Rightarrow>
     ebind (recurrent_stage K m frames encoder_out X_history h_0 c_0 (T, bs, C, W, H))
       (\<lambda>(moved_images, flows, flow).
     case labels of
       None \<Rightarrow> Inr ([moved_images, flow], g')
     | Some lbs \<Rightarrow>
         ebind (unbind0 K lbs) (\<lambda>lframes.
         ebind (warp_all K (zip (butlast lframes) flows)) (\<lambda>ls.
         ebind (torch_cat K ls 0) (\<lambda>moved_labels.
           Inr ([moved_images, moved_labels, flow], g')))))))))"

section \<open>Derived notions\<close>

text \<open>
  The decoder levels, from \<open>lvl\<close> on, that are followed by an upsampling and a skip
  connection, and their number over the whole decoder: the number of entries that one
  decode call pops.
\<close>

definition skip_levels :: "unet2 \<Rightarrow> nat \<Rightarrow> nat \<Rightarrow> nat list" where
  "skip_levels u lvl n = filter (has_skip (half_res u) (nb_levels u)) [lvl..<lvl + n]"

definition nb_skips :: "unet2 \<Rightarrow> nat" where
  "nb_skips u = length (skip_levels u 0 (length (decoder u)))"

text \<open>
  A list of convolution blocks is a chain from \<open>c\<close> channels when every block is built
  for \<open>nd\<close> spatial dimensions with stride 1 and takes the channels that the block before
  it produces; \<open>chain_out\<close> is the channel count at its end.
\<close>

fun chain_ok :: "nat \<Rightarrow> nat \<Rightarrow> convblock list \<Rightarrow> bool" where
  "chain_ok nd c [] = True"
| "chain_ok nd c (b # bs) =
     (cb_ndims b = nd \<and> in_channels b = c \<and> cb_stride b = 1 \<and> chain_ok nd (out_channels b) bs)"

fun chain_out :: "nat \<Rightarrow> convblock list \<Rightarrow> nat" where
  "chain_out c [] = c"
| "chain_out c (b # bs) = chain_out (out_channels b) bs"

text \<open>The blocks of a list all have at least one output channel.\<close>

definition positive_widths :: "convblock list \<Rightarrow> bool" where
  "positive_widths bs = list_all (\<lambda>b. 0 < out_channels b) bs"

text \<open>
  The levels of an encoder form chains one after the other; \<open>enc_nfs\<close> lists the channel
  count after each level, and \<open>hist_shapes\<close> the shapes that the encoder loop appends to
  the history for an input of batch size \<open>n\<close> and spatial extents \<open>dims\<close> when every
  level pools by \<open>s\<close>.
\<close>

fun enc_ok :: "nat \<Rightarrow> nat \<Rightarrow> convblock list list \<Rightarrow> bool" where
  "enc_ok nd c [] = True"
| "enc_ok nd c (l # ls) = (chain_ok nd c l \<and> enc_ok nd (chain_out c l) ls)"

fun enc_nfs :: "nat \<Rightarrow> convblock list list \<Rightarrow> nat list" where
  "enc_nfs c [] = []"
| "enc_nfs c (l # ls) = chain_out c l # enc_nfs (chain_out c l) ls"

fun hist_shapes :: "nat \<Rightarrow> nat \<Rightarrow> nat list \<Rightarrow> nat list \<Rightarrow> nat list list" where
  "hist_shapes n s dims [] = []"
| "hist_shapes n s dims (c # cs) = (n # c # dims) # hist_shapes n s (map (\<lambda>d. d div s) dims) cs"

text \<open>
  The levels of a decoder in which every level is followed by a skip connection: the
  channels of the skipped tensors, in the order of their use, are \<open>sk\<close>. \<open>tops_ok\<close>
  says that the tensors \<open>tops\<close>, in the order in which they are popped, have these channel
  counts and the spatial extents that the upsampling by \<open>s\<close> produces.
\<close>

fun dec_ok :: "nat \<Rightarrow> nat \<Rightarrow> convblock list list \<Rightarrow> nat list \<Rightarrow> bool" where
  "dec_ok nd c [] sk = True"
| "dec_ok nd c (l # ls) sk =
     (case sk of [] \<Rightarrow> False | e # sk' \<Rightarrow> chain_ok nd c l \<and> dec_ok nd (chain_out c l + e) ls sk')"

fun dec_out :: "nat \<Rightarrow> convblock list list \<Rightarrow> nat list \<Rightarrow> nat" where
  "dec_out c [] sk = c"
| "dec_out c (l # ls) sk = dec_out (chain_out c l + hd sk) ls (tl sk)"

fun tops_ok :: "nat \<Rightarrow> nat \<Rightarrow> nat list \<Rightarrow> nat list \<Rightarrow> 'v tensor list \<Rightarrow> bool" where
  "tops_ok n s dims sk [] = True"
| "tops_ok n s dims sk (t # ts) =
     (case sk of
        [] \<Rightarrow> False
      | e # sk' \<Rightarrow> shape t = n # e # map (\<lambda>d. d * s) dims
                   \<and> tops_ok n s (map (\<lambda>d. d * s) dims) sk' ts)"

section \<open>Concrete instances\<close>

text \<open>
  Kernels over contents without information, a generator that counts its draws, and a
  spatial transformer that returns its source: enough to run the shape rules.
\<close>

definition K0 :: "(unit, nat) kernels" where
  "K0 = \<lparr>conv_val = (\<lambda>_ v. v), pool_val = (\<lambda>_ v. v), up_val = (\<lambda>_ v. v),
          cat_val = (\<lambda>_ _. ()), unsqueeze_val = (\<lambda>_ v. v), select_val = (\<lambda>_ v. v),
          view_val = (\<lambda>_ v. v), lstm_val = (\<lambda>_ _ _. ()),
          spatial_transformer = (\<lambda>src fl. Inr src), randn_val = (\<lambda>g sh. ((), Suc g))\<rparr>"

text \<open>
  The network that \<open>Bottleneck\<close> builds for images of 32 by 32 pixels, the smallest
  size that its five pooling levels divide, and the model around it.
\<close>

definition ref_args :: unet2_args where
  "ref_args =
     Unet2_defaults\<lparr>inshape := Some [32, 32], infeats := Some 2,
       nb_features := ListFeatures [[16, 32, 32, 32, 64], [64, 32, 32, 32, 32, 16, 16, 8, 2]]\<rparr>"

definition ref_conv :: "modkey \<Rightarrow> nat \<Rightarrow> nat \<Rightarrow> convblock" where
  "ref_conv key i out =
     \<lparr>cb_ndims = 2, in_channels = i, out_channels = out, cb_stride = 1, cb_key = key\<rparr>"

definition ref_unet :: unet2 where
  "ref_unet =
     \<lparr>half_res = False, nb_levels = 6,
      pooling = replicate 6 (MaxPool 2 2),
      upsampling = replicate 6 (Upsample 2),
      encoder = [[ref_conv (Encoder 0 0) 2 16], [ref_conv (Encoder 1 0) 16 32],
                 [ref_conv (Encoder 2 0) 32 32], [ref_conv (Encoder 3 0) 32 32],
                 [ref_conv (Encoder 4 0) 32 64]],
      decoder = [[ref_conv (Decoder 0 0) 64 64], [ref_conv (Decoder 1 0) 128 32],
                 [ref_conv (Decoder 2 0) 64 32], [ref_conv (Decoder 3 0) 64 32],
                 [ref_conv (Decoder 4 0) 64 32]],
      remaining = [ref_conv (Remaining 0) 48 16, ref_conv (Remaining 1) 16 16,
                   ref_conv (Remaining 2) 16 8, ref_conv (Remaining 3) 8 2],
      final_nf = Some 2\<rparr>"

definition ref_model :: bottleneck where
  "ref_model =
     \<lparr>image_size = [32, 32], ndims = 2, unet = ref_unet,
      input_size = 64, hidden_size = 64, lstm = LSTM 64 64\<rparr>"

text \<open>
  A frame pair for that network, and the history that its encode task returns.
\<close>

definition ref_input :: "unit tensor" where
  "ref_input = Tensor [1, 2, 32, 32] ()"

definition ref_history :: "unit tensor list" where
  "ref_history =
     [Tensor [1, 2, 32, 32] (), Tensor [1, 16, 32, 32] (), Tensor [1, 32, 16, 16] (),
      Tensor [1, 32, 8, 8] (), Tensor [1, 32, 4, 4] (), Tensor [1, 64, 2, 2] ()]"

text \<open>
  An image sequence of 40 frames with batch size 1, its frames, and the flow and the
  warped images that the model returns for it; a sequence of 10 frames, and one of 40
  frames with batch size 2, with the history of one of its frame pairs.
\<close>

definition ref_frame :: "unit tensor" where
  "ref_frame = Tensor [1, 1, 32, 32] ()"

definition ref_images :: "unit tensor" where
  "ref_images = Tensor [40, 1, 1, 32, 32] ()"

definition ref_flow :: "unit tensor" where
  "ref_flow = Tensor [39, 1, 2, 32, 32] ()"

definition ref_moved :: "unit tensor" where
  "ref_moved = Tensor [39, 1, 1, 32, 32] ()"

definition short_images :: "unit tensor" where
  "short_images = Tensor [10, 1, 1, 32, 32] ()"

definition batch2_images :: "unit tensor" where
  "batch2_images = Tensor [40, 2, 1, 32, 32] ()"

definition batch2_history :: "unit tensor list" where
  "batch2_history =
     [Tensor [2, 2, 32, 32] (), Tensor [2, 16, 32, 32] (), Tensor [2, 32, 16, 16] (),
      Tensor [2, 32, 8, 8] (), Tensor [2, 32, 4, 4] (), Tensor [2, 64, 2, 2] ()]"

text \<open>
  The same network with \<open>half_res\<close> set, and a frame pair of 33 by 33 pixels with the
  history that the encode task of the first network returns for it.
\<close>

definition half_args :: unet2_args where
  "half_args = ref_args\<lparr>arg_half_res := True\<rparr>"

definition half_unet :: unet2 where
  "half_unet =
     ref_unet\<lparr>half_res := True,
       remaining := [ref_conv (Remaining 0) 32 16, ref_conv (Remaining 1) 16 16,
                     ref_conv (Remaining 2) 16 8, ref_conv (Remaining 3) 8 2]\<rparr>"

definition odd_input :: "unit tensor" where
  "odd_input = Tensor [1, 2, 33, 33] ()"

definition odd_history :: "unit tensor list" where
  "odd_history =
     [Tensor [1, 2, 33, 33] (), Tensor [1, 16, 33, 33] (), Tensor [1, 32, 16, 16] (),
      Tensor [1, 32, 8, 8] (), Tensor [1, 32, 4, 4] (), Tensor [1, 64, 2, 2] ()]"

section \<open>Basic facts\<close>

lemma ebind_Inl [simp]: "ebind (Inl e) f = Inl e"
  by (simp add: ebind_def)

lemma ebind_Inr [simp]: "ebind (Inr x) f = f x"
  by (simp add: ebind_def)

lemma ebind_eq_Inr: "ebind r f = Inr y \<longleftrightarrow> (\<exists>x. r = Inr x \<and> f x = Inr y)"
  by (cases r) simp_all

lemma Unet2_init_ref: "Unet2_init ref_args = Inr ref_unet"
  by code_simp

lemma Bottleneck_init_ref: "Bottleneck_init [32, 32] = Inr ref_model"
  by code_simp

section \<open>Unet2: construction errors and unknown tasks\<close>

text \<open>
  C10. For every input and every task string other than \<open>encode\<close> and \<open>decode\<close>,
  \<open>Unet2.forward\<close> returns \<open>None\<close>: no branch is taken, nothing is raised, nothing is
  computed, and the history argument is left as it was.
\<close>

theorem Unet2_forward_unknown_task:
  "task \<noteq> ''encode'' \<Longrightarrow> task \<noteq> ''decode'' \<Longrightarrow> Unet2_forward K u x task h = Inr (PyNone, h)"
  by (simp add: Unet2_forward_def)

theorem Unet2_forward_unknown_task_witness:
  "''train'' \<noteq> ''encode'' \<and> ''train'' \<noteq> ''decode''
   \<and> Unet2_forward K0 ref_unet (Tensor [1, 2, 32, 32] ()) ''train'' (Some [])
       = Inr (PyNone, Some [])"
  using Unet2_forward_unknown_task
          [of "''train''" K0 ref_unet "Tensor [1, 2, 32, 32] ()" "Some []"]
  by simp

text \<open>
  C9. Construction of \<open>Unet2\<close> fails, with the message of the source, when the number of
  spatial dimensions is not 1, 2 or 3 (AssertionError), when \<open>nb_features\<close> is an integer
  and \<open>nb_levels\<close> is missing (ValueError), and when \<open>nb_levels\<close> is given while
  \<open>nb_features\<close> is not an integer (ValueError). In each of the three situations no
  network is returned, whatever the other arguments are.
\<close>

theorem Unet2_init_configuration_errors:
  "(inshape a = Some shp \<and> length shp \<notin> {1, 2, 3} \<longrightarrow>
      Unet2_init a = Inl (AssertionError
        (''ndims should be one of 1, 2, or 3. found: '' @ str_nat (length shp))))
   \<and> (inshape a = Some shp \<and> length shp \<in> {1, 2, 3} \<and> nb_features a = IntFeatures n
        \<and> arg_nb_levels a = None \<longrightarrow>
      Unet2_init a = Inl (ValueError ''must provide unet nb_levels if nb_features is an integer''))
   \<and> (inshape a = Some shp \<and> length shp \<in> {1, 2, 3} \<and> (\<forall>k. nb_features a \<noteq> IntFeatures k)
        \<and> arg_nb_levels a = Some l \<longrightarrow>
      Unet2_init a = Inl (ValueError ''cannot use nb_levels if nb_features is not an integer''))
   \<and> ((\<forall>s. inshape a = Some s \<longrightarrow> length s \<notin> {1, 2, 3})
        \<or> (nb_features a = IntFeatures n \<and> arg_nb_levels a = None)
        \<or> ((\<forall>k. nb_features a \<noteq> IntFeatures k) \<and> arg_nb_levels a = Some l) \<longrightarrow>
      (\<exists>e. Unet2_init a = Inl e))"
proof (intro conjI impI)
  assume "inshape a = Some shp \<and> length shp \<notin> {1, 2, 3}"
  then show "Unet2_init a = Inl (AssertionError
        (''ndims should be one of 1, 2, or 3. found: '' @ str_nat (length shp)))"
    by (simp add: Unet2_init_def py_assert_def)
next
  assume "inshape a = Some shp \<and> length shp \<in> {1, 2, 3} \<and> nb_features a = IntFeatures n
        \<and> arg_nb_levels a = None"
  then show "Unet2_init a
      = Inl (ValueError ''must provide unet nb_levels if nb_features is an integer'')"
    by (auto simp add: Unet2_init_def py_assert_def feature_lists_def)
next
  assume "inshape a = Some shp \<and> length shp \<in> {1, 2, 3} \<and> (\<forall>k. nb_features a \<noteq> IntFeatures k)
        \<and> arg_nb_levels a = Some l"
  then show "Unet2_init a
      = Inl (ValueError ''cannot use nb_levels if nb_features is not an integer'')"
    by (auto simp add: Unet2_init_def py_assert_def feature_lists_def
             split: nb_features_arg.splits)
next
  assume h: "(\<forall>s. inshape a = Some s \<longrightarrow> length s \<notin> {1, 2, 3})
        \<or> (nb_features a = IntFeatures n \<and> arg_nb_levels a = None)
        \<or> ((\<forall>k. nb_features a \<noteq> IntFeatures k) \<and> arg_nb_levels a = Some l)"
  show "\<exists>e. Unet2_init a = Inl e"
  proof (cases "inshape a")
    case None
    then show ?thesis by (simp add: Unet2_init_def)
  next
    case (Some s)
    show ?thesis
    proof (cases "length s \<in> {1, 2, 3}")
      case False
      with Some show ?thesis by (simp add: Unet2_init_def py_assert_def)
    next
      case True
      with h Some have "(nb_features a = IntFeatures n \<and> arg_nb_levels a = None)
        \<or> ((\<forall>k. nb_features a \<noteq> IntFeatures k) \<and> arg_nb_levels a = Some l)" by auto
      then have "\<exists>e. feature_lists a = Inl e"
        by (auto simp add: feature_lists_def split: nb_features_arg.splits)
      with Some True show ?thesis
        by (auto simp add: Unet2_init_def py_assert_def)
    qed
  qed
qed

theorem Unet2_init_configuration_errors_witness:
  "Unet2_init (Unet2_defaults\<lparr>inshape := Some [8, 8, 8, 8]\<rparr>)
     = Inl (AssertionError ''ndims should be one of 1, 2, or 3. found: 4'')
   \<and> Unet2_init (Unet2_defaults\<lparr>inshape := Some [8, 8], nb_features := IntFeatures 16\<rparr>)
     = Inl (ValueError ''must provide unet nb_levels if nb_features is an integer'')
   \<and> Unet2_init (Unet2_defaults\<lparr>inshape := Some [8, 8], arg_nb_levels := Some 3\<rparr>)
     = Inl (ValueError ''cannot use nb_levels if nb_features is not an integer'')"
proof -
  let ?a = "Unet2_defaults\<lparr>inshape := Some [8, 8, 8, 8]\<rparr>"
  let ?b = "Unet2_defaults\<lparr>inshape := Some [8, 8], nb_features := IntFeatures 16\<rparr>"
  let ?c = "Unet2_defaults\<lparr>inshape := Some [8, 8], arg_nb_levels := Some 3\<rparr>"
  have a: "inshape ?a = Some [8, 8, 8, 8] \<and> length [8::nat, 8, 8, 8] \<notin> {1, 2, 3}"
    by (simp add: Unet2_defaults_def)
  have n: "str_nat (length [8::nat, 8, 8, 8]) = ''4''"
    by (simp add: str_nat.simps)
  have b: "inshape ?b = Some [8, 8] \<and> length [8::nat, 8] \<in> {1, 2, 3}
           \<and> nb_features ?b = IntFeatures 16 \<and> arg_nb_levels ?b = None"
    by (simp add: Unet2_defaults_def)
  have c: "inshape ?c = Some [8, 8] \<and> length [8::nat, 8] \<in> {1, 2, 3}
           \<and> (\<forall>k. nb_features ?c \<noteq> IntFeatures k) \<and> arg_nb_levels ?c = Some 3"
    by (simp add: Unet2_defaults_def)
  from a Unet2_init_configuration_errors [of ?a "[8, 8, 8, 8]"]
  have "Unet2_init ?a = Inl (AssertionError
          (''ndims should be one of 1, 2, or 3. found: '' @ str_nat (length [8::nat, 8, 8, 8])))"
    by blast
  then have "Unet2_init ?a
          = Inl (AssertionError ''ndims should be one of 1, 2, or 3. found: 4'')"
    by (simp only: n append.simps)
  moreover from b Unet2_init_configuration_errors [of ?b "[8, 8]" 16]
  have "Unet2_init ?b
          = Inl (ValueError ''must provide unet nb_levels if nb_features is an integer'')"
    by blast
  moreover from c Unet2_init_configuration_errors [of ?c "[8, 8]" _ 3]
  have "Unet2_init ?c
          = Inl (ValueError ''cannot use nb_levels if nb_features is not an integer'')"
    by blast
  ultimately show ?thesis by blast
qed

section \<open>The history stack\<close>

text \<open>The encoder loop appends one entry per level and keeps what was there.\<close>

lemma encode_levels_history:
  "encode_levels K u lvl ls x h = Inr (b, h') \<Longrightarrow>
     length h' = length h + length ls \<and> take (length h) h' = h"
proof (induction ls arbitrary: lvl x h)
  case Nil
  then show ?case by simp
next
  case (Cons convs rest)
  from Cons.prems obtain x1 p x2 where
    "encode_levels K u (Suc lvl) rest x2 (h @ [x1]) = Inr (b, h')"
    by (auto simp add: ebind_eq_Inr)
  from Cons.IH [OF this] show ?case
    by (auto simp add: take_Suc_conv_app_nth dest: arg_cong [where f = "take (length h)"])
qed

text \<open>The decoder loop pops one entry per level with a skip connection, from the end.\<close>

lemma skip_levels_Suc:
  "skip_levels u lvl (Suc n) =
     (if has_skip (half_res u) (nb_levels u) lvl then [lvl] else []) @ skip_levels u (Suc lvl) n"
  by (simp add: skip_levels_def upt_conv_Cons del: upt_Suc)

lemma decode_levels_history:
  "decode_levels K u lvl ls x h = Inr (y, h') \<Longrightarrow>
     length h = length h' + length (skip_levels u lvl (length ls)) \<and> h' = take (length h') h"
proof (induction ls arbitrary: lvl x h)
  case Nil
  then show ?case by (simp add: skip_levels_def)
next
  case (Cons convs rest)
  show ?case
  proof (cases "has_skip (half_res u) (nb_levels u) lvl")
    case True
    with Cons.prems obtain x1 where
      r: "decode_levels K u (Suc lvl) rest x1 (butlast h) = Inr (y, h')" and ne: "h \<noteq> []"
      by (auto simp add: ebind_eq_Inr py_pop_def split: if_splits)
    from Cons.IH [OF r] have
      l: "length (butlast h) = length h' + length (skip_levels u (Suc lvl) (length rest))"
      and t: "h' = take (length h') (butlast h)"
      by simp_all
    from l ne have lt: "length h' < length h"
      by (cases h rule: rev_cases) simp_all
    from t lt have "h' = take (length h') h"
      by (simp add: take_butlast)
    with l ne True show ?thesis
      by (cases h rule: rev_cases) (simp_all add: skip_levels_Suc)
  next
    case False
    with Cons.prems obtain x1 where
      r: "decode_levels K u (Suc lvl) rest x1 h = Inr (y, h')"
      by (auto simp add: ebind_eq_Inr)
    from Cons.IH [OF r] False show ?thesis
      by (simp add: skip_levels_Suc)
  qed
qed

lemma skip_levels_all:
  "length (skip_levels u 0 (nb_levels u - 1))
     = (if half_res u then nb_levels u - 2 else nb_levels u - 1)"
proof -
  have i: "has_skip True n = (\<lambda>j. j < n - 2)" for n :: nat
    by (rule ext) (simp add: has_skip_def, linarith)
  have j: "has_skip False n = (\<lambda>j. True)" for n :: nat
    by (rule ext) (simp add: has_skip_def)
  have "length (filter (\<lambda>j. j < k) [0..<m]) = min k m" for k m :: nat
    by (induction m) auto
  then show ?thesis
    by (cases "half_res u") (simp_all add: skip_levels_def i j)
qed

lemma build_encoder_length:
  "build_encoder nd enc_nf k lvls p = Inr (enc, nfs, p') \<Longrightarrow>
     length enc = length lvls \<and> length nfs = length lvls"
  by (induction lvls arbitrary: p enc nfs p') (auto simp add: ebind_eq_Inr)

lemma build_decoder_length:
  "build_decoder nd dec_nf k hr nbl encs lvls p = Inr (dec, p') \<Longrightarrow> length dec = length lvls"
  by (induction lvls arbitrary: p dec p') (auto simp add: ebind_eq_Inr)

lemma Unet2_init_levels:
  assumes "Unet2_init a = Inr u"
  shows "length (encoder u) = nb_levels u - 1" and "length (decoder u) = nb_levels u - 1"
    and "1 \<le> nb_levels u" and "half_res u = arg_half_res a"
  using assms
  by (auto simp add: Unet2_init_def ebind_eq_Inr Let_def
           split: option.splits if_splits
           dest!: build_encoder_length build_decoder_length)

lemma Unet2_encode_Inr:
  "Unet2_forward K u x ''encode'' hin = Inr (r, hin') \<longleftrightarrow>
     (\<exists>b h. encode_levels K u 0 (encoder u) x [x] = Inr (b, h) \<and> r = Encoded b h \<and> hin' = hin)"
  by (auto simp add: Unet2_forward_def ebind_eq_Inr)

lemma Unet2_decode_Inr:
  "Unet2_forward K u x ''decode'' (Some h) = Inr (r, hout) \<longleftrightarrow>
     (\<exists>y h' z. decode_levels K u 0 (decoder u) x h = Inr (y, h')
        \<and> run_convs K (remaining u) y = Inr z \<and> r = Decoded z \<and> hout = Some h')"
  by (auto simp add: Unet2_forward_def ebind_eq_Inr)

lemma ref_encode:
  "Unet2_forward K0 ref_unet ref_input ''encode'' None
     = Inr (Encoded (Tensor [1, 64, 1, 1] ()) ref_history, None)"
  by code_simp

lemma ref_decode:
  "Unet2_forward K0 ref_unet (Tensor [1, 64, 1, 1] ()) ''decode'' (Some ref_history)
     = Inr (Decoded (Tensor [1, 2, 32, 32] ()), Some [ref_input])"
  by code_simp

lemma ref_nb_skips: "nb_skips ref_unet = 5"
  by code_simp

lemma ref_decode_empty:
  "Unet2_forward K0 ref_unet (Tensor [1, 64, 1, 1] ()) ''decode'' (Some []) = Inl IndexError"
  by code_simp

lemma ref_decode_exact:
  "Unet2_forward K0 ref_unet (Tensor [1, 64, 1, 1] ()) ''decode'' (Some (tl ref_history))
     = Inr (Decoded (Tensor [1, 2, 32, 32] ()), Some [])"
  by code_simp

lemma py_pop_append:
  "h \<noteq> [] \<Longrightarrow> py_pop (extra @ h) = Inr (last h, extra @ butlast h)"
  by (simp add: py_pop_def butlast_append)

lemma decode_levels_extra:
  "decode_levels K u lvl ls x h = Inr (y, h') \<Longrightarrow>
     decode_levels K u lvl ls x (extra @ h) = Inr (y, extra @ h')"
proof (induction ls arbitrary: lvl x h)
  case Nil
  then show ?case by simp
next
  case (Cons convs rest)
  show ?case
  proof (cases "has_skip (half_res u) (nb_levels u) lvl")
    case True
    with Cons.prems obtain x1 up x2 x3 where
      s: "run_convs K convs x = Inr x1" "py_index (upsampling u) lvl = Inr up"
         "Upsample_forward K up x1 = Inr x2" "torch_cat K [x2, last h] 1 = Inr x3"
      and r: "decode_levels K u (Suc lvl) rest x3 (butlast h) = Inr (y, h')" and ne: "h \<noteq> []"
      by (auto simp add: ebind_eq_Inr py_pop_def split: if_splits)
    from Cons.IH [OF r] s ne True show ?thesis
      by (simp add: py_pop_append)
  next
    case False
    with Cons.prems obtain x1 where
      s: "run_convs K convs x = Inr x1"
      and r: "decode_levels K u (Suc lvl) rest x1 h = Inr (y, h')"
      by (auto simp add: ebind_eq_Inr)
    from Cons.IH [OF r] s False show ?thesis
      by simp
  qed
qed

text \<open>
  C1, as the code has it. For every configuration that \<open>Unet2\<close> accepts, encode returns a
  history of \<open>nb_levels\<close> entries whose first entry is the network input \<open>x\<close>. A decode
  call that consumes this history pops one entry per upsampling level, from the end, and
  leaves the first entry on the stack (the first two with \<open>half_res\<close> and at least two
  levels): the stack is not empty afterwards.
\<close>

theorem decode_leaves_network_input:
  assumes "Unet2_init a = Inr u"
    and "Unet2_forward K u x ''encode'' hin = Inr (Encoded b h, hin')"
    and "Unet2_forward K u y ''decode'' (Some h) = Inr (r, hout)"
  shows "length h = nb_levels u
         \<and> hout = Some (take (if half_res u \<and> 2 \<le> nb_levels u then 2 else 1) h)
         \<and> hd h = x"
proof -
  from assms(2) have e: "encode_levels K u 0 (encoder u) x [x] = Inr (b, h)"
    by (simp add: Unet2_encode_Inr)
  from assms(3) obtain z h' where
    d: "decode_levels K u 0 (decoder u) y h = Inr (z, h')" and o: "hout = Some h'"
    by (auto simp add: Unet2_decode_Inr)
  note lv = Unet2_init_levels [OF assms(1)]
  from encode_levels_history [OF e] lv have
    lh: "length h = nb_levels u" and tk: "take 1 h = [x]"
    by simp_all
  from tk have hx: "hd h = x"
    by (cases h) simp_all
  from decode_levels_history [OF d] lv(2) skip_levels_all [of u] have
    l: "length h = length h' + (if half_res u then nb_levels u - 2 else nb_levels u - 1)"
    and t: "h' = take (length h') h"
    by simp_all
  from l lh lv(3) have "length h' = (if half_res u \<and> 2 \<le> nb_levels u then 2 else 1)"
    by (auto split: if_splits)
  with t have "h' = take (if half_res u \<and> 2 \<le> nb_levels u then 2 else 1) h"
    by simp
  with lh hx o show ?thesis by simp
qed

theorem decode_leaves_network_input_witness:
  "Unet2_init ref_args = Inr ref_unet
   \<and> Unet2_forward K0 ref_unet ref_input ''encode'' None
       = Inr (Encoded (Tensor [1, 64, 1, 1] ()) ref_history, None)
   \<and> Unet2_forward K0 ref_unet (Tensor [1, 64, 1, 1] ()) ''decode'' (Some ref_history)
       = Inr (Decoded (Tensor [1, 2, 32, 32] ()), Some [ref_input])
   \<and> length ref_history = nb_levels ref_unet
   \<and> Some [ref_input]
       = Some (take (if half_res ref_unet \<and> 2 \<le> nb_levels ref_unet then 2 else 1) ref_history)
   \<and> hd ref_history = ref_input"
  using decode_leaves_network_input [OF Unet2_init_ref ref_encode ref_decode]
        Unet2_init_ref ref_encode ref_decode
  by simp

text \<open>
  C1 as stated fails: after encode and decode on the network of \<open>Bottleneck\<close>, the history
  still holds one entry, the input of encode.
\<close>

theorem decode_history_empty_counterexample:
  "Unet2_init ref_args = Inr ref_unet
   \<and> Unet2_forward K0 ref_unet ref_input ''encode'' None
       = Inr (Encoded (Tensor [1, 64, 1, 1] ()) ref_history, None)
   \<and> Unet2_forward K0 ref_unet (Tensor [1, 64, 1, 1] ()) ''decode'' (Some ref_history)
       = Inr (Decoded (Tensor [1, 2, 32, 32] ()), Some [ref_input])
   \<and> length [ref_input] \<noteq> 0"
  using Unet2_init_ref ref_encode ref_decode by simp

text \<open>
  C4, as the code has it. Decode raises an AssertionError when no history is passed. It
  fails when the history holds fewer entries than there are decoder levels with a skip
  connection (an empty history included, if there is such a level). A call that returns
  had at least that many entries, and it returns the same tensor when further entries lie
  below them: a longer history is accepted and its surplus is left in place.
\<close>

theorem decode_history_preconditions:
  "Unet2_forward K u x ''decode'' None = Inl (AssertionError ''x_history_ is None.'')
   \<and> (length h < nb_skips u \<longrightarrow> (\<exists>e. Unet2_forward K u x ''decode'' (Some h) = Inl e))
   \<and> (Unet2_forward K u x ''decode'' (Some h) = Inr (r, Some h') \<longrightarrow>
        nb_skips u \<le> length h
        \<and> Unet2_forward K u x ''decode'' (Some (extra @ h)) = Inr (r, Some (extra @ h')))"
proof (intro conjI impI)
  show "Unet2_forward K u x ''decode'' None = Inl (AssertionError ''x_history_ is None.'')"
    by (simp add: Unet2_forward_def)
next
  assume short: "length h < nb_skips u"
  show "\<exists>e. Unet2_forward K u x ''decode'' (Some h) = Inl e"
  proof (cases "Unet2_forward K u x ''decode'' (Some h)")
    case (Inl e)
    then show ?thesis by simp
  next
    case (Inr p)
    then obtain y h' where "decode_levels K u 0 (decoder u) x h = Inr (y, h')"
      by (cases p) (auto simp add: Unet2_decode_Inr)
    from decode_levels_history [OF this] short show ?thesis
      by (simp add: nb_skips_def)
  qed
next
  assume ok: "Unet2_forward K u x ''decode'' (Some h) = Inr (r, Some h')"
  then obtain y z where d: "decode_levels K u 0 (decoder u) x h = Inr (y, h')"
    and z: "run_convs K (remaining u) y = Inr z" "r = Decoded z"
    by (auto simp add: Unet2_decode_Inr)
  from decode_levels_history [OF d] show "nb_skips u \<le> length h"
    by (simp add: nb_skips_def)
  from decode_levels_extra [OF d] z
  show "Unet2_forward K u x ''decode'' (Some (extra @ h)) = Inr (r, Some (extra @ h'))"
    by (simp add: Unet2_forward_def)
qed

theorem decode_history_preconditions_witness:
  "length ([] :: unit tensor list) < nb_skips ref_unet
   \<and> Unet2_forward K0 ref_unet (Tensor [1, 64, 1, 1] ()) ''decode'' (Some []) = Inl IndexError
   \<and> Unet2_forward K0 ref_unet (Tensor [1, 64, 1, 1] ()) ''decode'' (Some (tl ref_history))
       = Inr (Decoded (Tensor [1, 2, 32, 32] ()), Some [])
   \<and> Unet2_forward K0 ref_unet (Tensor [1, 64, 1, 1] ()) ''decode''
         (Some ([ref_input, ref_input] @ tl ref_history))
       = Inr (Decoded (Tensor [1, 2, 32, 32] ()), Some ([ref_input, ref_input] @ []))"
  using decode_history_preconditions
          [of K0 ref_unet "Tensor [1, 64, 1, 1] ()" "tl ref_history"
              "Decoded (Tensor [1, 2, 32, 32] ())" "[]" "[ref_input, ref_input]"]
        decode_history_preconditions [of K0 ref_unet "Tensor [1, 64, 1, 1] ()" "[]"]
        ref_decode_exact ref_decode_empty ref_nb_skips
  by simp

text \<open>
  C4 as stated fails: the history returned by encode has six entries, the decoder of the
  same network has five levels with a skip connection, and decode accepts it.
\<close>

theorem decode_accepts_longer_history_counterexample:
  "length ref_history = 6 \<and> nb_skips ref_unet = 5
   \<and> Unet2_forward K0 ref_unet (Tensor [1, 64, 1, 1] ()) ''decode'' (Some ref_history)
       = Inr (Decoded (Tensor [1, 2, 32, 32] ()), Some [ref_input])"
  using ref_decode ref_nb_skips by (simp add: ref_history_def)

section \<open>Bottleneck: the stages of the forward pass\<close>

text \<open>
  The encode stage produces one entry per pair of consecutive frames, each with a leading
  extent of 1, so that the stacked output has one row less than there are frames.
\<close>

lemma encode_pairs_shape:
  "encode_pairs K m ps = Inr (X, Xh) \<Longrightarrow>
     length X = length ps \<and> length Xh = length ps \<and> list_all (\<lambda>t. \<exists>sh. shape t = 1 # sh) X"
proof (induction ps arbitrary: X Xh)
  case Nil
  then show ?case by simp
next
  case (Cons p ps)
  from Cons.prems obtain x h X' Xh' where
    p: "encode_pair K m p = Inr (x, h)" and r: "encode_pairs K m ps = Inr (X', Xh')"
    and e: "X = x # X'" "Xh = h # Xh'"
    by (auto simp add: ebind_eq_Inr)
  from p obtain r where
    "(case r of Encoded b bh \<Rightarrow> Inr (unsqueeze0 K b, bh) | _ \<Rightarrow> Inl TypeError) = Inr (x, h)"
    by (cases p) (auto simp add: encode_pair_def ebind_eq_Inr)
  then have "\<exists>sh. shape x = 1 # sh"
    by (cases r) (auto simp add: unsqueeze0_def)
  with Cons.IH [OF r] e show ?case by simp
qed

lemma sum_list_not_skipped:
  "sum_list (map (\<lambda>s. s ! 0) (filter (\<lambda>sh. \<not> cat_skipped sh) shs)) = sum_list (map (\<lambda>s. s ! 0) shs)"
  by (induction shs) (simp_all add: cat_skipped_def)

lemma cat_shape_dim0:
  assumes "cat_shape shs 0 = Inr sh"
  shows "shs \<noteq> [] \<and> sh \<noteq> [] \<and> hd sh = sum_list (map (\<lambda>s. s ! 0) shs)"
proof (cases "filter (\<lambda>sh. \<not> cat_skipped sh) shs")
  case Nil
  with sum_list_not_skipped [of shs] have "sum_list (map (\<lambda>s. s ! 0) shs) = 0"
    by simp
  with assms Nil show ?thesis
    by (auto simp add: cat_shape_def split: if_splits)
next
  case (Cons a rest)
  with sum_list_not_skipped [of shs] have "sum_list (map (\<lambda>s. s ! 0) shs) = a ! 0 + sum_list (map (\<lambda>s. s ! 0) rest)"
    by simp
  with assms Cons show ?thesis
    by (auto simp add: cat_shape_def split: if_splits)
qed

lemma sum_list_unsqueezed:
  "list_all (\<lambda>t. \<exists>sh. shape t = 1 # sh) X \<Longrightarrow> sum_list (map (\<lambda>s. s ! 0) (map shape X)) = length X"
  by (induction X) auto

lemma unbind0_Inr:
  "unbind0 K t = Inr frames \<Longrightarrow> shape t \<noteq> [] \<and> length frames = hd (shape t)"
  by (auto simp add: unbind0_def split: list.splits)

lemma encode_stage_lengths:
  assumes "encode_stage K m images = Inr (frames, eo, Xh)"
  shows "shape images \<noteq> []" and "length frames = hd (shape images)" and "2 \<le> length frames"
    and "shape eo \<noteq> []" and "hd (shape eo) = length frames - 1" and "length Xh = length frames - 1"
proof -
  from assms obtain X where
    u: "unbind0 K images = Inr frames"
    and p: "encode_pairs K m (zip (butlast frames) (tl frames)) = Inr (X, Xh)"
    and c: "torch_cat K X 0 = Inr eo"
    by (auto simp add: encode_stage_def ebind_eq_Inr)
  from unbind0_Inr [OF u] show "shape images \<noteq> []" and "length frames = hd (shape images)"
    by simp_all
  from encode_pairs_shape [OF p] have
    l: "length X = length frames - 1" "length Xh = length frames - 1"
    and a: "list_all (\<lambda>t. \<exists>sh. shape t = 1 # sh) X"
    by simp_all
  from c obtain sh where cs: "cat_shape (map shape X) 0 = Inr sh" and s: "shape eo = sh"
    by (auto simp add: torch_cat_def ebind_eq_Inr)
  from cat_shape_dim0 [OF cs] have "length X \<noteq> 0"
    by simp
  with l show "2 \<le> length frames"
    by simp
  from cat_shape_dim0 [OF cs] sum_list_unsqueezed [OF a] s l
  show "shape eo \<noteq> []" and "hd (shape eo) = length frames - 1"
    and "length Xh = length frames - 1"
    by auto
qed

lemma unpack5_Inr: "unpack5 sh = Inr (a, b, c, d, e) \<longleftrightarrow> sh = [a, b, c, d, e]"
  by (auto simp add: unpack5_def split: list.splits)

lemma Bottleneck_forward_Inr:
  assumes "Bottleneck_forward K m images labels g = Inr r"
  shows "\<exists>frames eo Xh T C W H. encode_stage K m images = Inr (frames, eo, Xh)
           \<and> shape eo = [T, 1, C, W, H] \<and> T = 39"
  using assms
  by (auto simp add: Bottleneck_forward_def ebind_eq_Inr unpack5_Inr py_assert_def
           split: if_splits)

lemma Bottleneck_forward_assert:
  assumes "encode_stage K m images = Inr (frames, eo, Xh)" and "shape eo = [T, bs, C, W, H]"
    and "bs \<noteq> 1 \<or> T \<noteq> 39"
  shows "Bottleneck_forward K m images labels g = Inl (AssertionError [])"
  using assms
  by (auto simp add: Bottleneck_forward_def unpack5_def py_assert_def)

lemma Bottleneck_forward_eq:
  assumes "encode_stage K m images = Inr (frames, eo, Xh)" and "shape eo = [39, 1, C, W, H]"
    and "initial_state K m 1 g = (h_0, c_0, g')"
  shows "Bottleneck_forward K m images labels g =
     ebind (recurrent_stage K m frames eo Xh h_0 c_0 (39, 1, C, W, H))
       (\<lambda>(moved_images, flows, flow).
     case labels of
       None \<Rightarrow> Inr ([moved_images, flow], g')
     | Some lbs \<Rightarrow>
         ebind (unbind0 K lbs) (\<lambda>lframes.
         ebind (warp_all K (zip (butlast lframes) flows)) (\<lambda>ls.
         ebind (torch_cat K ls 0) (\<lambda>moved_labels.
           Inr ([moved_images, moved_labels, flow], g')))))"
  using assms by (simp add: Bottleneck_forward_def unpack5_def py_assert_def)

lemma Bottleneck_forward_labels_Inr:
  assumes f: "Bottleneck_forward K m images (Some lbs) g = Inr (out3, g3)"
  shows "\<exists>mi ml fl. out3 = [mi, ml, fl]
         \<and> Bottleneck_forward K m images None g = Inr ([mi, fl], g3)"
proof -
  obtain h_0 c_0 g' where i: "initial_state K m 1 g = (h_0, c_0, g')"
    by (cases "initial_state K m 1 g")
  from Bottleneck_forward_Inr [OF f] obtain frames eo Xh C W H where
    e: "encode_stage K m images = Inr (frames, eo, Xh)" and s: "shape eo = [39, 1, C, W, H]"
    by blast
  from f show ?thesis
    unfolding Bottleneck_forward_eq [OF e s i]
    by (auto simp add: ebind_eq_Inr)
qed

subsection \<open>A run of the model on 40 frames\<close>

lemma encode_pairs_replicate:
  "encode_pair K m p = Inr (x, h) \<Longrightarrow>
     encode_pairs K m (replicate n p) = Inr (replicate n x, replicate n h)"
  by (induction n) simp_all

lemma warp_all_replicate:
  "spatial_transformer K (fst p) (snd p) = Inr w \<Longrightarrow>
     warp_all K (replicate n p) = Inr (replicate n (unsqueeze0 K w))"
  by (induction n) simp_all

lemma decode_steps_uniform:
  assumes sel: "\<And>j. j < n \<Longrightarrow> select0 K lo j = Inr x"
    and dec: "Unet2_forward K (unet m) x ''decode'' (Some h) = Inr (Decoded y, Some h')"
  shows "k = n - i \<Longrightarrow> i \<le> n \<Longrightarrow> length Xh = n \<Longrightarrow> (\<forall>j. i \<le> j \<and> j < n \<longrightarrow> Xh ! j = h) \<Longrightarrow>
     \<exists>Xh'. decode_steps K m lo Xh [i..<n] = Inr (replicate (n - i) (unsqueeze0 K y), Xh')"
proof (induction k arbitrary: i Xh)
  case 0
  then show ?case by simp
next
  case (Suc k)
  from Suc.prems have lt: "i < n" by simp
  then have u: "[i..<n] = i # [Suc i..<n]"
    by (simp add: upt_conv_Cons)
  from Suc.prems lt have ix: "py_index Xh i = Inr h"
    by (simp add: py_index_def)
  have "\<exists>Xh'. decode_steps K m lo (Xh[i := h']) [Suc i..<n]
           = Inr (replicate (n - Suc i) (unsqueeze0 K y), Xh')"
  proof (rule Suc.IH)
    from Suc.prems show "k = n - Suc i" by simp
    from lt show "Suc i \<le> n" by simp
    from Suc.prems show "length (Xh[i := h']) = n" by simp
    from Suc.prems show "\<forall>j. Suc i \<le> j \<and> j < n \<longrightarrow> Xh[i := h'] ! j = h" by simp
  qed
  then obtain Xh' where
    r: "decode_steps K m lo (Xh[i := h']) [Suc i..<n]
          = Inr (replicate (n - Suc i) (unsqueeze0 K y), Xh')"
    by blast
  from lt have "replicate (n - i) (unsqueeze0 K y)
      = unsqueeze0 K y # replicate (n - Suc i) (unsqueeze0 K y)"
    by (simp add: Suc_diff_Suc flip: replicate_Suc)
  with r sel [OF lt] ix dec show ?case
    by (simp add: u)
qed

lemma unbind0_K0: "unbind0 K0 (Tensor (n # sh) ()) = Inr (replicate n (Tensor sh ()))"
  by (simp add: unbind0_def K0_def map_replicate_const)

lemma select0_K0: "j < n \<Longrightarrow> select0 K0 (Tensor (n # sh) ()) j = Inr (Tensor sh ())"
  by (simp add: select0_def K0_def)

lemma torch_cat_K0_replicate:
  "0 < n \<Longrightarrow> torch_cat K0 (replicate n (Tensor (1 # sh) ())) 0 = Inr (Tensor (n # sh) ())"
proof -
  assume "0 < n"
  then obtain k where n: "n = Suc k"
    by (cases n) auto
  have "list_all (cat_compatible 0 (1 # sh)) (replicate k (1 # sh))"
    by (induction k) (simp_all add: cat_compatible_def)
  moreover have "sum_list (map (\<lambda>s. s ! 0) (replicate k (1 # sh))) = k"
    by (induction k) simp_all
  ultimately show ?thesis
    by (simp add: torch_cat_def cat_shape_def cat_skipped_def n K0_def)
qed

lemma consecutive_replicate:
  "zip (butlast (replicate (Suc n) x)) (tl (replicate (Suc n) x)) = replicate n (x, x)"
proof -
  have "replicate (Suc n) x = replicate n x @ [x]"
    by (simp add: replicate_append_same)
  then have "butlast (replicate (Suc n) x) = replicate n x"
    by (simp only: butlast_snoc)
  then show ?thesis
    by simp
qed

lemma ref_encode_pair:
  "encode_pair K0 ref_model (ref_frame, ref_frame) = Inr (Tensor [1, 1, 64, 1, 1] (), ref_history)"
  by code_simp

lemma K0_encode_stage:
  assumes "encode_pair K0 ref_model (Tensor sh (), Tensor sh ()) = Inr (Tensor (1 # bsh) (), h)"
    and "0 < n"
  shows "encode_stage K0 ref_model (Tensor (Suc n # sh) ())
     = Inr (replicate (Suc n) (Tensor sh ()), Tensor (n # bsh) (), replicate n h)"
  unfolding encode_stage_def unbind0_K0 ebind_Inr consecutive_replicate
    encode_pairs_replicate [OF assms(1)] prod.case torch_cat_K0_replicate [OF assms(2)]
  by (rule refl)

lemma ref_encode_stage:
  "encode_stage K0 ref_model ref_images
     = Inr (replicate 40 ref_frame, Tensor [39, 1, 64, 1, 1] (), replicate 39 ref_history)"
  using K0_encode_stage [of "[1, 1, 32, 32]" "[1, 64, 1, 1]" ref_history 39] ref_encode_pair
  by (simp add: ref_images_def ref_frame_def)

lemma short_encode_stage:
  "encode_stage K0 ref_model short_images
     = Inr (replicate 10 ref_frame, Tensor [9, 1, 64, 1, 1] (), replicate 9 ref_history)"
  using K0_encode_stage [of "[1, 1, 32, 32]" "[1, 64, 1, 1]" ref_history 9] ref_encode_pair
  by (simp add: short_images_def ref_frame_def)

lemma batch2_encode_pair:
  "encode_pair K0 ref_model (Tensor [2, 1, 32, 32] (), Tensor [2, 1, 32, 32] ())
     = Inr (Tensor [1, 2, 64, 1, 1] (), batch2_history)"
  by code_simp

lemma batch2_encode_stage:
  "encode_stage K0 ref_model batch2_images
     = Inr (replicate 40 (Tensor [2, 1, 32, 32] ()), Tensor [39, 2, 64, 1, 1] (),
            replicate 39 batch2_history)"
  using K0_encode_stage [of "[2, 1, 32, 32]" "[2, 64, 1, 1]" batch2_history 39]
    batch2_encode_pair
  by (simp add: batch2_images_def)

lemma ref_initial_state:
  "initial_state K0 ref_model 1 g = (Tensor [1, 1, 64] (), Tensor [1, 1, 64] (), Suc (Suc g))"
  by (simp add: initial_state_def torch_randn_def K0_def ref_model_def)

lemma ref_decode_model:
  "Unet2_forward K0 (unet ref_model) (Tensor [1, 64, 1, 1] ()) ''decode'' (Some ref_history)
     = Inr (Decoded (Tensor [1, 2, 32, 32] ()), Some [ref_input])"
  using ref_decode by (simp add: ref_model_def)

lemma ref_lstm:
  "ebind (torch_view_infer K0 (Tensor [39, 1, 64, 1, 1] ()) 39 1) (\<lambda>inp.
   ebind (LSTM_forward K0 (lstm ref_model) inp (Tensor [1, 1, 64] ()) (Tensor [1, 1, 64] ())) (\<lambda>lstm_out.
     torch_view K0 lstm_out [39, 1, 64, 1, 1]))
   = Inr (Tensor [39, 1, 64, 1, 1] ())"
  by code_simp

lemma ref_recurrent_stage:
  "recurrent_stage K0 ref_model (replicate 40 ref_frame) (Tensor [39, 1, 64, 1, 1] ())
       (replicate 39 ref_history) (Tensor [1, 1, 64] ()) (Tensor [1, 1, 64] ()) (39, 1, 64, 1, 1)
     = Inr (ref_moved, replicate 39 (Tensor [1, 2, 32, 32] ()), ref_flow)"
proof -
  have "\<exists>Xh'. decode_steps K0 ref_model (Tensor [39, 1, 64, 1, 1] ()) (replicate 39 ref_history) [0..<39]
          = Inr (replicate (39 - 0) (unsqueeze0 K0 (Tensor [1, 2, 32, 32] ())), Xh')"
  proof (rule decode_steps_uniform [where x = "Tensor [1, 64, 1, 1] ()" and h = ref_history
            and h' = "[ref_input]" and k = 39])
    show "Unet2_forward K0 (unet ref_model) (Tensor [1, 64, 1, 1] ()) ''decode'' (Some ref_history)
            = Inr (Decoded (Tensor [1, 2, 32, 32] ()), Some [ref_input])"
      by (rule ref_decode_model)
    show "select0 K0 (Tensor [39, 1, 64, 1, 1] ()) j = Inr (Tensor [1, 64, 1, 1] ())"
      if "j < 39" for j
      using that by (rule select0_K0)
  qed simp_all
  then obtain Xh' where
    d: "decode_steps K0 ref_model (Tensor [39, 1, 64, 1, 1] ()) (replicate 39 ref_history) [0..<39]
          = Inr (replicate 39 (Tensor [1, 1, 2, 32, 32] ()), Xh')"
    by (auto simp add: unsqueeze0_def K0_def)
  have c1: "torch_cat K0 (replicate 39 (Tensor [1, 1, 2, 32, 32] ())) 0 = Inr ref_flow"
    unfolding ref_flow_def by (rule torch_cat_K0_replicate) simp
  have u: "unbind0 K0 ref_flow = Inr (replicate 39 (Tensor [1, 2, 32, 32] ()))"
    by (simp add: ref_flow_def unbind0_K0)
  have z: "zip (butlast (replicate 40 ref_frame)) (replicate 39 (Tensor [1, 2, 32, 32] ()))
             = replicate 39 (ref_frame, Tensor [1, 2, 32, 32] ())"
    by (simp add: butlast_conv_take)
  have w: "warp_all K0 (replicate 39 (ref_frame, Tensor [1, 2, 32, 32] ()))
             = Inr (replicate 39 (unsqueeze0 K0 ref_frame))"
    by (rule warp_all_replicate) (simp add: K0_def)
  have c2: "torch_cat K0 (replicate 39 (unsqueeze0 K0 ref_frame)) 0 = Inr ref_moved"
    unfolding ref_moved_def using torch_cat_K0_replicate [of 39 "[1, 1, 32, 32]"]
    by (simp add: unsqueeze0_def K0_def ref_frame_def)
  have l: "ebind (torch_view_infer K0 (Tensor [39, 1, 64, 1, 1] ()) 39 1) (\<lambda>inp.
      ebind (LSTM_forward K0 (lstm ref_model) inp (Tensor [1, 1, 64] ()) (Tensor [1, 1, 64] ())) (\<lambda>lstm_out.
      ebind (torch_view K0 lstm_out [39, 1, 64, 1, 1]) f))
    = f (Tensor [39, 1, 64, 1, 1] ())" for f :: "unit tensor \<Rightarrow> error + 'b"
    using ref_lstm by (auto simp add: ebind_eq_Inr)
  show ?thesis
    unfolding recurrent_stage_def prod.case l d ebind_Inr c1 u z w c2
    by simp
qed

lemma ref_forward_eq:
  "Bottleneck_forward K0 ref_model ref_images labels g =
     (case labels of
        None \<Rightarrow> Inr ([ref_moved, ref_flow], Suc (Suc g))
      | Some lbs \<Rightarrow>
          ebind (unbind0 K0 lbs) (\<lambda>lframes.
          ebind (warp_all K0 (zip (butlast lframes) (replicate 39 (Tensor [1, 2, 32, 32] ())))) (\<lambda>ls.
          ebind (torch_cat K0 ls 0) (\<lambda>moved_labels.
            Inr ([ref_moved, moved_labels, ref_flow], Suc (Suc g))))))"
proof -
  have s: "shape (Tensor [39, 1, 64, 1, 1] ()) = [39, 1, 64, 1, 1]"
    by simp
  show ?thesis
    unfolding Bottleneck_forward_eq [OF ref_encode_stage s ref_initial_state]
      ref_recurrent_stage ebind_Inr prod.case
    by (rule refl)
qed

lemma ref_forward:
  "Bottleneck_forward K0 ref_model ref_images None 0 = Inr ([ref_moved, ref_flow], 2)"
  by (simp add: ref_forward_eq)

lemma ref_forward_labels:
  "Bottleneck_forward K0 ref_model ref_images (Some ref_images) 0
     = Inr ([ref_moved, ref_moved, ref_flow], 2)"
proof -
  have u: "unbind0 K0 ref_images = Inr (replicate 40 ref_frame)"
    by (simp add: ref_images_def ref_frame_def unbind0_K0)
  have z: "zip (butlast (replicate 40 ref_frame)) (replicate 39 (Tensor [1, 2, 32, 32] ()))
             = replicate 39 (ref_frame, Tensor [1, 2, 32, 32] ())"
    by (simp add: butlast_conv_take)
  have w: "warp_all K0 (replicate 39 (ref_frame, Tensor [1, 2, 32, 32] ()))
             = Inr (replicate 39 (unsqueeze0 K0 ref_frame))"
    by (rule warp_all_replicate) (simp add: K0_def)
  have c2: "torch_cat K0 (replicate 39 (unsqueeze0 K0 ref_frame)) 0 = Inr ref_moved"
    unfolding ref_moved_def using torch_cat_K0_replicate [of 39 "[1, 1, 32, 32]"]
    by (simp add: unsqueeze0_def K0_def ref_frame_def)
  show ?thesis
    unfolding ref_forward_eq option.case u ebind_Inr z w c2
    by simp
qed

section \<open>Bottleneck: the checks before the recurrent stage\<close>

text \<open>
  C3. The stacked encoder output always has one row less than there are frames, and as
  many histories: nothing is truncated or padded on the way. When its shape is
  \<open>(T, bs, C, W, H)\<close> and \<open>bs\<close> is not 1 (or \<open>T\<close> is not 39), \<open>forward\<close> raises an
  AssertionError, before the recurrent core is called. A call that returns had
  \<open>bs = 1\<close> and an encoded sequence of exactly one less than the frame count.
\<close>

theorem recurrent_stage_preconditions:
  "(encode_stage K m images = Inr (frames, eo, Xh) \<longrightarrow>
      shape images \<noteq> [] \<and> length frames = hd (shape images)
      \<and> shape eo \<noteq> [] \<and> Suc (hd (shape eo)) = length frames)
   \<and> (encode_stage K m images = Inr (frames, eo, Xh) \<and> shape eo = [T, bs, C, W, H]
        \<and> (bs \<noteq> 1 \<or> T \<noteq> 39) \<longrightarrow>
      Bottleneck_forward K m images labels g = Inl (AssertionError []))
   \<and> (Bottleneck_forward K m images labels g = Inr r \<longrightarrow>
      (\<exists>frames eo Xh T C W H. encode_stage K m images = Inr (frames, eo, Xh)
         \<and> shape eo = [T, 1, C, W, H] \<and> Suc T = length frames
         \<and> length frames = hd (shape images)))"
  (is "?A \<and> ?B \<and> ?C")
proof -
  have a: ?A
  proof
    assume e: "encode_stage K m images = Inr (frames, eo, Xh)"
    from encode_stage_lengths [OF e]
    show "shape images \<noteq> [] \<and> length frames = hd (shape images)
      \<and> shape eo \<noteq> [] \<and> Suc (hd (shape eo)) = length frames"
      by simp
  qed
  have b: ?B
  proof
    assume "encode_stage K m images = Inr (frames, eo, Xh) \<and> shape eo = [T, bs, C, W, H]
        \<and> (bs \<noteq> 1 \<or> T \<noteq> 39)"
    then show "Bottleneck_forward K m images labels g = Inl (AssertionError [])"
      by (elim conjE) (rule Bottleneck_forward_assert)
  qed
  have c: ?C
  proof
    assume f: "Bottleneck_forward K m images labels g = Inr r"
    from Bottleneck_forward_Inr [OF f] obtain frames eo Xh T C W H where
      e: "encode_stage K m images = Inr (frames, eo, Xh)" and s: "shape eo = [T, 1, C, W, H]"
      by blast
    from encode_stage_lengths [OF e] s
    have "Suc T = length frames" "length frames = hd (shape images)"
      by simp_all
    with e s show "\<exists>frames eo Xh T C W H. encode_stage K m images = Inr (frames, eo, Xh)
         \<and> shape eo = [T, 1, C, W, H] \<and> Suc T = length frames
         \<and> length frames = hd (shape images)"
      by blast
  qed
  from a b c show ?thesis by (intro conjI)
qed

theorem recurrent_stage_preconditions_witness:
  "encode_stage K0 ref_model batch2_images
     = Inr (replicate 40 (Tensor [2, 1, 32, 32] ()), Tensor [39, 2, 64, 1, 1] (),
            replicate 39 batch2_history)
   \<and> shape (Tensor [39, 2, 64, 1, 1] ()) = [39, 2, 64, 1, 1] \<and> (2::nat) \<noteq> 1
   \<and> Suc (hd (shape (Tensor [39, 2, 64, 1, 1] ()))) = length (replicate 40 (Tensor [2, 1, 32, 32] ()))
   \<and> Bottleneck_forward K0 ref_model batch2_images None 0 = Inl (AssertionError [])
   \<and> Bottleneck_forward K0 ref_model ref_images None 0 = Inr ([ref_moved, ref_flow], 2)
   \<and> (\<exists>frames eo Xh T C W H. encode_stage K0 ref_model ref_images = Inr (frames, eo, Xh)
         \<and> shape eo = [T, 1, C, W, H] \<and> Suc T = length frames
         \<and> length frames = hd (shape ref_images))"
proof -
  note t = recurrent_stage_preconditions
          [of K0 ref_model batch2_images "replicate 40 (Tensor [2, 1, 32, 32] ())"
              "Tensor [39, 2, 64, 1, 1] ()" "replicate 39 batch2_history" 39 2 64 1 1 None 0]
  note u = recurrent_stage_preconditions [of K0 ref_model ref_images _ _ _ _ _ _ _ _ None 0
              "([ref_moved, ref_flow], 2)"]
  have s: "shape (Tensor [39, 2, 64, 1, 1] ()) = [39, 2, 64, 1, 1]" and n: "(2::nat) \<noteq> 1"
    by simp_all
  from t batch2_encode_stage
  have a: "Suc (hd (shape (Tensor [39, 2, 64, 1, 1] ())))
             = length (replicate 40 (Tensor [2, 1, 32, 32] ()))"
    by blast
  from t batch2_encode_stage s n
  have b: "Bottleneck_forward K0 ref_model batch2_images None 0 = Inl (AssertionError [])"
    by blast
  from u ref_forward
  have c: "\<exists>frames eo Xh T C W H. encode_stage K0 ref_model ref_images = Inr (frames, eo, Xh)
         \<and> shape eo = [T, 1, C, W, H] \<and> Suc T = length frames
         \<and> length frames = hd (shape ref_images)"
    by blast
  from batch2_encode_stage s n a b ref_forward c show ?thesis
    by (intro conjI)
qed

text \<open>
  C8, as the code has it. No image sequence whose frame count is not 40 is accepted: the
  length check compares the number of frame pairs with the constant 39. The error is an
  AssertionError whenever the encode stage went through and stacked a five-dimensional
  output. A sequence of fewer than two frames has no frame pair: torch refuses to stack
  the empty list, and its error, which is not an AssertionError, comes before the
  assertion is reached.
\<close>

theorem forward_rejects_other_lengths:
  "(shape images = n # sh \<and> n \<noteq> 40 \<longrightarrow> (\<exists>e. Bottleneck_forward K m images labels g = Inl e))
   \<and> (shape images = n # sh \<and> n \<noteq> 40 \<and> encode_stage K m images = Inr (frames, eo, Xh)
        \<and> length (shape eo) = 5 \<longrightarrow>
      Bottleneck_forward K m images labels g = Inl (AssertionError []))
   \<and> (shape images = n # sh \<and> n \<le> 1 \<longrightarrow>
      Bottleneck_forward K m images labels g = Inl TorchError)"
proof (intro conjI impI)
  assume a: "shape images = n # sh \<and> n \<noteq> 40"
  show "\<exists>e. Bottleneck_forward K m images labels g = Inl e"
  proof (cases "Bottleneck_forward K m images labels g")
    case (Inl e)
    then show ?thesis by simp
  next
    case (Inr r)
    from Bottleneck_forward_Inr [OF this] obtain frames eo Xh T C W H where
      e: "encode_stage K m images = Inr (frames, eo, Xh)" and s: "shape eo = [T, 1, C, W, H]"
      and t: "T = 39"
      by blast
    from encode_stage_lengths [OF e] s a have "Suc T = n"
      by simp
    with t a have False
      by simp
    then show ?thesis ..
  qed
next
  assume a: "shape images = n # sh \<and> n \<noteq> 40 \<and> encode_stage K m images = Inr (frames, eo, Xh)
        \<and> length (shape eo) = 5"
  then obtain T bs C W H where s: "shape eo = [T, bs, C, W, H]"
    by (auto simp add: length_Suc_conv eval_nat_numeral)
  from a encode_stage_lengths [of K m images frames eo Xh] s have "Suc T = n"
    by simp
  with a have "bs \<noteq> 1 \<or> T \<noteq> 39"
    by auto
  with a s show "Bottleneck_forward K m images labels g = Inl (AssertionError [])"
    by (elim conjE) (rule Bottleneck_forward_assert)
next
  assume a: "shape images = n # sh \<and> n \<le> 1"
  define fr where "fr = map (\<lambda>i. Tensor sh (select_val K i (val images))) [0..<n]"
  from a have u: "unbind0 K images = Inr fr"
    by (simp add: unbind0_def fr_def)
  from a have "length fr \<le> 1"
    by (simp add: fr_def)
  then have z: "zip (butlast fr) (tl fr) = []"
    by (cases fr) auto
  have "encode_stage K m images = Inl TorchError"
    unfolding encode_stage_def u ebind_Inr z
    by (simp add: torch_cat_def cat_shape_def)
  then show "Bottleneck_forward K m images labels g = Inl TorchError"
    by (simp add: Bottleneck_forward_def)
qed

theorem forward_rejects_other_lengths_witness:
  "shape short_images = 10 # [1, 1, 32, 32] \<and> (10::nat) \<noteq> 40
   \<and> encode_stage K0 ref_model short_images
        = Inr (replicate 10 ref_frame, Tensor [9, 1, 64, 1, 1] (), replicate 9 ref_history)
   \<and> length (shape (Tensor [9, 1, 64, 1, 1] ())) = 5
   \<and> Bottleneck_forward K0 ref_model short_images None 0 = Inl (AssertionError [])
   \<and> shape (Tensor [1, 1, 1, 32, 32] ()) = 1 # [1, 1, 32, 32] \<and> (1::nat) \<le> 1
   \<and> Bottleneck_forward K0 ref_model (Tensor [1, 1, 1, 32, 32] ()) None 0 = Inl TorchError"
proof -
  note t = forward_rejects_other_lengths
          [of short_images 10 "[1, 1, 32, 32]" K0 ref_model None 0 "replicate 10 ref_frame"
              "Tensor [9, 1, 64, 1, 1] ()" "replicate 9 ref_history"]
  note u = forward_rejects_other_lengths
          [of "Tensor [1, 1, 1, 32, 32] ()" 1 "[1, 1, 32, 32]" K0 ref_model None 0]
  have s: "shape short_images = 10 # [1, 1, 32, 32]" and n: "(10::nat) \<noteq> 40"
    and l: "length (shape (Tensor [9, 1, 64, 1, 1] ())) = 5"
    and s1: "shape (Tensor [1, 1, 1, 32, 32] ()) = 1 # [1, 1, 32, 32]" and n1: "(1::nat) \<le> 1"
    by (simp_all add: short_images_def)
  from t s n short_encode_stage l
  have a: "Bottleneck_forward K0 ref_model short_images None 0 = Inl (AssertionError [])"
    by blast
  from u s1 n1
  have b: "Bottleneck_forward K0 ref_model (Tensor [1, 1, 1, 32, 32] ()) None 0 = Inl TorchError"
    by blast
  from s n short_encode_stage l a s1 n1 b show ?thesis
    by (intro conjI)
qed

text \<open>
  C8 as stated fails: for a sequence of one frame the error is not an AssertionError.
\<close>

theorem forward_single_frame_counterexample:
  "Bottleneck_forward K0 ref_model (Tensor [1, 1, 1, 32, 32] ()) None 0 = Inl TorchError
   \<and> TorchError \<noteq> AssertionError []"
proof -
  have "encode_stage K0 ref_model (Tensor [1, 1, 1, 32, 32] ()) = Inl TorchError"
    unfolding encode_stage_def unbind0_K0 ebind_Inr
    by (simp add: torch_cat_def cat_shape_def)
  then show ?thesis
    by (simp add: Bottleneck_forward_def)
qed

section \<open>Bottleneck: what the result depends on\<close>

text \<open>
  C6. When the call with labels returns, its result has three elements, and the call
  without labels, from the same generator state, returns the same warped images and the
  same flow (and leaves the generator in the same state). When the call without labels
  returns, the call with labels returns the same two tensors with the warped labels
  between them, unless warping the labels themselves fails. When the call without labels
  raises, the call with labels raises the same error.
\<close>

theorem labels_change_only_arity:
  "(Bottleneck_forward K m images (Some lbs) g = Inr (out3, g3) \<longrightarrow>
      (\<exists>mi ml fl. out3 = [mi, ml, fl]
         \<and> Bottleneck_forward K m images None g = Inr ([mi, fl], g3)))
   \<and> (Bottleneck_forward K m images None g = Inr (out2, g2) \<longrightarrow>
      (\<exists>mi fl. out2 = [mi, fl]
         \<and> ((\<exists>e. Bottleneck_forward K m images (Some lbs) g = Inl e)
            \<or> (\<exists>ml. Bottleneck_forward K m images (Some lbs) g = Inr ([mi, ml, fl], g2)))))
   \<and> (Bottleneck_forward K m images None g = Inl e \<longrightarrow>
      Bottleneck_forward K m images (Some lbs) g = Inl e)"
  (is "?A \<and> ?B \<and> ?C")
proof -
  obtain h_0 c_0 g' where i: "initial_state K m 1 g = (h_0, c_0, g')"
    by (cases "initial_state K m 1 g")
  have a: ?A
    by (rule impI) (rule Bottleneck_forward_labels_Inr)
  have b: ?B
  proof
    assume f: "Bottleneck_forward K m images None g = Inr (out2, g2)"
    from Bottleneck_forward_Inr [OF f] obtain frames eo Xh C W H where
      e: "encode_stage K m images = Inr (frames, eo, Xh)" and s: "shape eo = [39, 1, C, W, H]"
      by blast
    from f obtain mi fls fl where
      r: "recurrent_stage K m frames eo Xh h_0 c_0 (39, 1, C, W, H) = Inr (mi, fls, fl)"
      and o: "out2 = [mi, fl]" "g2 = g'"
      unfolding Bottleneck_forward_eq [OF e s i]
      by (auto simp add: ebind_eq_Inr)
    have "(\<exists>e. Bottleneck_forward K m images (Some lbs) g = Inl e)
            \<or> (\<exists>ml. Bottleneck_forward K m images (Some lbs) g = Inr ([mi, ml, fl], g2))"
      unfolding Bottleneck_forward_eq [OF e s i] r o
      by (auto simp add: ebind_def split: sum.splits)
    with o show "\<exists>mi fl. out2 = [mi, fl]
         \<and> ((\<exists>e. Bottleneck_forward K m images (Some lbs) g = Inl e)
            \<or> (\<exists>ml. Bottleneck_forward K m images (Some lbs) g = Inr ([mi, ml, fl], g2)))"
      by blast
  qed
  have c: ?C
  proof
    assume f: "Bottleneck_forward K m images None g = Inl e"
    show "Bottleneck_forward K m images (Some lbs) g = Inl e"
    proof (cases "Bottleneck_forward K m images (Some lbs) g")
      case (Inl e')
      show ?thesis
      proof (cases "\<exists>frames eo Xh C W H. encode_stage K m images = Inr (frames, eo, Xh)
                      \<and> shape eo = [39, 1, C, W, H]")
        case True
        then obtain frames eo Xh C W H where
          e: "encode_stage K m images = Inr (frames, eo, Xh)"
          and s: "shape eo = [39, 1, C, W, H]"
          by blast
        from f Inl show ?thesis
          unfolding Bottleneck_forward_eq [OF e s i]
          by (auto simp add: ebind_def split: sum.splits)
      next
        case False
        have "Bottleneck_forward K m images (Some lbs) g = Bottleneck_forward K m images None g"
        proof (cases "encode_stage K m images")
          case (Inl e1)
          then show ?thesis by (simp add: Bottleneck_forward_def)
        next
          case (Inr p)
          then obtain frames eo Xh where
            e: "encode_stage K m images = Inr (frames, eo, Xh)"
            by (cases p) auto
          show ?thesis
          proof (cases "unpack5 (shape eo)")
            case (Inl e2)
            with e show ?thesis by (simp add: Bottleneck_forward_def)
          next
            case (Inr q)
            then obtain T bs C W H where u: "shape eo = [T, bs, C, W, H]"
              by (cases q) (auto simp add: unpack5_Inr)
            with e False have "bs \<noteq> 1 \<or> T \<noteq> 39"
              by auto
            from Bottleneck_forward_assert [OF e u this] show ?thesis
              by simp
          qed
        qed
        with f show ?thesis by simp
      qed
    next
      case (Inr p)
      obtain o3 g3' where "p = (o3, g3')"
        by (cases p)
      with Inr Bottleneck_forward_labels_Inr [of K m images lbs g o3 g3'] f
      show ?thesis by auto
    qed
  qed
  from a b c show ?thesis by (intro conjI)
qed

theorem labels_change_only_arity_witness:
  "Bottleneck_forward K0 ref_model ref_images (Some ref_images) 0
     = Inr ([ref_moved, ref_moved, ref_flow], 2)
   \<and> (\<exists>mi ml fl. [ref_moved, ref_moved, ref_flow] = [mi, ml, fl]
         \<and> Bottleneck_forward K0 ref_model ref_images None 0 = Inr ([mi, fl], 2))"
proof -
  note t = labels_change_only_arity
         [of K0 ref_model ref_images ref_images 0 "[ref_moved, ref_moved, ref_flow]" 2]
  from t ref_forward_labels
  have "\<exists>mi ml fl. [ref_moved, ref_moved, ref_flow] = [mi, ml, fl]
         \<and> Bottleneck_forward K0 ref_model ref_images None 0 = Inr ([mi, fl], 2)"
    by blast
  with ref_forward_labels show ?thesis
    by (intro conjI)
qed

text \<open>
  C7. The result of \<open>forward\<close> depends on the state of the random generator only through
  the two draws for the initial hidden and cell state: two calls on the same images and
  labels, with the same kernels and weights, whose draws coincide, raise the same error
  or return the same list of tensors.
\<close>

theorem Bottleneck_forward_deterministic:
  assumes "initial_state K m 1 g1 = (h_0, c_0, g1')" and "initial_state K m 1 g2 = (h_0, c_0, g2')"
  shows "map_sum id fst (Bottleneck_forward K m images labels g1)
         = map_sum id fst (Bottleneck_forward K m images labels g2)"
proof (cases "encode_stage K m images")
  case (Inl e)
  then show ?thesis by (simp add: Bottleneck_forward_def)
next
  case (Inr p)
  then obtain frames eo Xh where e: "encode_stage K m images = Inr (frames, eo, Xh)"
    by (cases p) auto
  show ?thesis
  proof (cases "unpack5 (shape eo)")
    case (Inl e')
    with e show ?thesis by (simp add: Bottleneck_forward_def)
  next
    case (Inr q)
    then obtain T bs C W H where u: "unpack5 (shape eo) = Inr (T, bs, C, W, H)"
      by (cases q) auto
    show ?thesis
    proof (cases "bs = 1 \<and> T = 39")
      case False
      with e u show ?thesis
        by (auto simp add: Bottleneck_forward_def py_assert_def)
    next
      case True
      show ?thesis
      proof (cases "recurrent_stage K m frames eo Xh h_0 c_0 (T, bs, C, W, H)")
        case (Inl e')
        with e u True assms show ?thesis
          by (simp add: Bottleneck_forward_def py_assert_def)
      next
        case (Inr s)
        then obtain mi fls fl where
          "recurrent_stage K m frames eo Xh h_0 c_0 (T, bs, C, W, H) = Inr (mi, fls, fl)"
          by (cases s) auto
        with e u True assms show ?thesis
          by (cases labels) (auto simp add: Bottleneck_forward_def py_assert_def ebind_def
                                   split: sum.splits)
      qed
    qed
  qed
qed

theorem Bottleneck_forward_deterministic_witness:
  "initial_state K0 ref_model 1 0 = (Tensor [1, 1, 64] (), Tensor [1, 1, 64] (), 2)
   \<and> initial_state K0 ref_model 1 5 = (Tensor [1, 1, 64] (), Tensor [1, 1, 64] (), 7)
   \<and> Bottleneck_forward K0 ref_model ref_images None 0 = Inr ([ref_moved, ref_flow], 2)
   \<and> map_sum id fst (Bottleneck_forward K0 ref_model ref_images None 5)
       = Inr [ref_moved, ref_flow]"
proof -
  have a: "initial_state K0 ref_model 1 0 = (Tensor [1, 1, 64] (), Tensor [1, 1, 64] (), 2)"
    and b: "initial_state K0 ref_model 1 5 = (Tensor [1, 1, 64] (), Tensor [1, 1, 64] (), 7)"
    using ref_initial_state [of 0] ref_initial_state [of 5] by simp_all
  from Bottleneck_forward_deterministic [OF a b, of ref_images None] ref_forward
  have "map_sum id fst (Bottleneck_forward K0 ref_model ref_images None 5)
          = Inr [ref_moved, ref_flow]"
    by simp
  with a b ref_forward show ?thesis
    by (intro conjI)
qed

section \<open>Unet2: the shapes of encode and decode\<close>

subsection \<open>The encoder\<close>

lemma conv_shape_batched:
  assumes "length dims = nd" and "list_all (\<lambda>d. 1 \<le> d) dims" and "0 < c'"
  shows "conv_shape nd c c' (Suc 0) (n # c # dims) = Inr (n # c' # dims)"
proof -
  from assms(2) have "map (\<lambda>d. (d - 1) div Suc 0 + 1) dims = dims"
    by (intro map_idI) (auto simp add: list_all_iff)
  with assms show ?thesis
    by (simp add: conv_shape_def)
qed

lemma pool_shape_batched:
  assumes "length dims = nd" and "0 < s" and "list_all (\<lambda>d. s \<le> d) dims"
  shows "pool_shape nd s (n # c # dims) = Inr (n # c # map (\<lambda>d. d div s) dims)"
proof -
  from assms(2,3) have "map (\<lambda>d. (d - s) div s + 1) dims = map (\<lambda>d. d div s) dims"
    by (auto simp add: list_all_iff le_div_geq)
  with assms show ?thesis
    by (simp add: pool_shape_def)
qed

lemma run_convs_chain:
  "chain_ok nd c bs \<Longrightarrow> length dims = nd \<Longrightarrow> list_all (\<lambda>d. 1 \<le> d) dims \<Longrightarrow>
     positive_widths bs \<Longrightarrow>
     \<exists>v'. run_convs K bs (Tensor (n # c # dims) v) = Inr (Tensor (n # chain_out c bs # dims) v')"
proof (induction bs arbitrary: c v)
  case Nil
  then show ?case by simp
next
  case (Cons b bs)
  from Cons.prems have
    "ConvBlock_forward K b (Tensor (n # c # dims) v)
       = Inr (Tensor (n # out_channels b # dims) (conv_val K (cb_key b) v))"
    by (simp add: ConvBlock_forward_def conv_shape_batched positive_widths_def)
  moreover from Cons.prems have "chain_ok nd (out_channels b) bs" and "positive_widths bs"
    by (simp_all add: positive_widths_def)
  from Cons.IH [OF this(1) Cons.prems(2,3) this(2)]
  obtain v' where "run_convs K bs (Tensor (n # out_channels b # dims) (conv_val K (cb_key b) v))
      = Inr (Tensor (n # chain_out (out_channels b) bs # dims) v')"
    by blast
  ultimately show ?case by simp
qed

lemma build_convs_chain:
  "build_convs key nd nfs base cs (Some c) = Inr (bs, p) \<Longrightarrow>
     chain_ok nd c bs \<and> p = Some (chain_out c bs)"
proof (induction cs arbitrary: c bs p)
  case Nil
  then show ?case by simp
next
  case (Cons conv cs)
  from Cons.prems obtain nf b bs' where
    b: "ConvBlock_init (key conv) nd (Some c) nf 1 = Inr b"
    and r: "build_convs key nd nfs base cs (Some nf) = Inr (bs', p)" and e: "bs = b # bs'"
    by (auto simp add: ebind_eq_Inr)
  from b have "cb_ndims b = nd \<and> in_channels b = c \<and> cb_stride b = 1 \<and> out_channels b = nf"
    by (auto simp add: ConvBlock_init_def)
  with Cons.IH [OF r] e show ?case by simp
qed

lemma build_encoder_chain:
  "build_encoder nd enc_nf k lvls (Some c) = Inr (enc, nfs, p) \<Longrightarrow>
     enc_ok nd c enc \<and> nfs = map Some (enc_nfs c enc) \<and> p = Some (last (c # enc_nfs c enc))"
proof (induction lvls arbitrary: c enc nfs p)
  case Nil
  then show ?case by simp
next
  case (Cons level ls)
  from Cons.prems obtain convs q enc' nfs' where
    b: "build_convs (Encoder level) nd enc_nf (level * k) [0..<k] (Some c) = Inr (convs, q)"
    and r: "build_encoder nd enc_nf k ls q = Inr (enc', nfs', p)"
    and e: "enc = convs # enc'" "nfs = q # nfs'"
    by (auto simp add: ebind_eq_Inr)
  from build_convs_chain [OF b] have c: "chain_ok nd c convs" and q: "q = Some (chain_out c convs)"
    by simp_all
  from Cons.IH [OF r [unfolded q]] c q e show ?case
    by simp
qed

lemma encode_levels_chain:
  assumes pl: "pooling u = replicate N (MaxPool nd s)" and s: "0 < s"
  shows "enc_ok nd c ls \<Longrightarrow> lvl + length ls \<le> N \<Longrightarrow> length dims = nd \<Longrightarrow>
     list_all (\<lambda>d. s ^ length ls \<le> d) dims \<Longrightarrow> list_all positive_widths ls \<Longrightarrow>
     \<exists>b h'. encode_levels K u lvl ls (Tensor (n # c # dims) v) h = Inr (b, h @ h')
        \<and> shape b = n # last (c # enc_nfs c ls) # map (\<lambda>d. d div s ^ length ls) dims
        \<and> map shape h' = hist_shapes n s dims (enc_nfs c ls)"
proof (induction ls arbitrary: lvl c dims v h)
  case Nil
  then show ?case by simp
next
  case (Cons convs rest)
  from s have "1 \<le> s ^ length (convs # rest)"
    by simp
  with Cons.prems(4) have one: "list_all (\<lambda>d. 1 \<le> d) dims"
    unfolding list_all_iff by (meson order_trans)
  from s have "s \<le> s ^ length (convs # rest)"
    by simp
  with Cons.prems(4) have big: "list_all (\<lambda>d. s \<le> d) dims"
    unfolding list_all_iff by (meson order_trans)
  from Cons.prems have "chain_ok nd c convs" and "positive_widths convs"
    by simp_all
  from run_convs_chain [OF this(1) Cons.prems(3) one this(2), of K n v] obtain v1 where
    x1: "run_convs K convs (Tensor (n # c # dims) v)
           = Inr (Tensor (n # chain_out c convs # dims) v1)"
    by blast
  from Cons.prems pl have ix: "py_index (pooling u) lvl = Inr (MaxPool nd s)"
    by (simp add: py_index_def)
  have mp: "MaxPool_forward K (MaxPool nd s) (Tensor (n # chain_out c convs # dims) v1)
      = Inr (Tensor (n # chain_out c convs # map (\<lambda>d. d div s) dims) (pool_val K s v1))"
    using Cons.prems(3) s big by (simp add: MaxPool_forward_def pool_shape_batched)
  have sm: "list_all (\<lambda>d. s ^ length rest \<le> d) (map (\<lambda>d. d div s) dims)"
    using Cons.prems(4) s
    by (auto simp add: list_all_iff less_eq_div_iff_mult_less_eq mult.commute)
  from Cons.prems have "enc_ok nd (chain_out c convs) rest" "Suc lvl + length rest \<le> N"
    "length (map (\<lambda>d. d div s) dims) = nd"
    by simp_all
  moreover from Cons.prems have pw: "list_all positive_widths rest"
    by simp
  ultimately have ih: "enc_ok nd (chain_out c convs) rest" "Suc lvl + length rest \<le> N"
    "length (map (\<lambda>d. d div s) dims) = nd"
    by simp_all
  from Cons.IH [OF ih sm pw, where v = "pool_val K s v1"
                  and h = "h @ [Tensor (n # chain_out c convs # dims) v1]"]
  obtain b h' where
    r: "encode_levels K u (Suc lvl) rest
          (Tensor (n # chain_out c convs # map (\<lambda>d. d div s) dims) (pool_val K s v1))
          (h @ [Tensor (n # chain_out c convs # dims) v1])
        = Inr (b, (h @ [Tensor (n # chain_out c convs # dims) v1]) @ h')"
    and sb: "shape b = n # last (chain_out c convs # enc_nfs (chain_out c convs) rest)
               # map (\<lambda>d. d div s ^ length rest) (map (\<lambda>d. d div s) dims)"
    and sh: "map shape h' = hist_shapes n s (map (\<lambda>d. d div s) dims) (enc_nfs (chain_out c convs) rest)"
    by blast
  have dd: "map (\<lambda>d. d div s ^ length rest) (map (\<lambda>d. d div s) dims)
      = map (\<lambda>d. d div s ^ length (convs # rest)) dims"
    by (simp add: div_mult2_eq)
  from x1 ix mp r have "encode_levels K u lvl (convs # rest) (Tensor (n # c # dims) v) h
      = Inr (b, h @ (Tensor (n # chain_out c convs # dims) v1 # h'))"
    by simp
  moreover from sb dd have "shape b = n # last (c # enc_nfs c (convs # rest))
      # map (\<lambda>d. d div s ^ length (convs # rest)) dims"
    by simp
  moreover from sh have "map shape (Tensor (n # chain_out c convs # dims) v1 # h')
      = hist_shapes n s dims (enc_nfs c (convs # rest))"
    by simp
  ultimately show ?case by blast
qed

lemma Unet2_init_encoder:
  assumes "Unet2_init a = Inr u" and "inshape a = Some shp" and "infeats a = Some c"
    and "max_pool a = IntPool s"
  shows "enc_ok (length shp) c (encoder u)"
    and "pooling u = replicate (nb_levels u) (MaxPool (length shp) s)"
    and "upsampling u = replicate (nb_levels u) (Upsample s)"
    and "length shp \<in> {1, 2, 3}"
  using assms
  by (auto simp add: Unet2_init_def ebind_eq_Inr Let_def py_assert_def
           split: if_splits dest!: build_encoder_chain)

text \<open>
  C2, as the code has it. Encode has no divisibility check. For every configuration that
  \<open>Unet2\<close> accepts with a scalar pooling factor \<open>s \<ge> 1\<close>, a positive input feature
  count and positive widths of all encoder convolutions, and every input with a
  non-empty batch and the configured channel count whose spatial extents are at least
  \<open>s\<close> to the number of pooling levels, encode returns: every pooling level floors, and
  the bottleneck has the extents \<open>d div s ^ (nb_levels - 1)\<close>, whether or not \<open>d\<close> is
  divisible.
\<close>

theorem encode_floors_spatial_extents:
  assumes "Unet2_init a = Inr u" and "inshape a = Some shp" and "infeats a = Some c"
    and "max_pool a = IntPool s" and "0 < s"
    and "length dims = length shp" and "\<forall>d\<in>set dims. s ^ (nb_levels u - 1) \<le> d"
    and "0 < n" and "0 < c" and "list_all positive_widths (encoder u)"
  shows "\<exists>b h cb. Unet2_forward K u (Tensor (n # c # dims) v) ''encode'' hin
                    = Inr (Encoded b h, hin)
           \<and> shape b = n # cb # map (\<lambda>d. d div s ^ (nb_levels u - 1)) dims
           \<and> length h = nb_levels u"
proof -
  note st = Unet2_init_encoder [OF assms(1-4)]
  note lv = Unet2_init_levels [OF assms(1)]
  from assms(7) lv(1) have ge: "list_all (\<lambda>d. s ^ length (encoder u) \<le> d) dims"
    by (simp add: list_all_iff)
  have le: "0 + length (encoder u) \<le> nb_levels u"
    using lv by simp
  from encode_levels_chain [OF st(2) assms(5) st(1) le assms(6) ge assms(10),
         of K n v "[Tensor (n # c # dims) v]"]
  obtain b h' where
    e: "encode_levels K u 0 (encoder u) (Tensor (n # c # dims) v) [Tensor (n # c # dims) v]
          = Inr (b, [Tensor (n # c # dims) v] @ h')"
    and sb: "shape b = n # last (c # enc_nfs c (encoder u))
               # map (\<lambda>d. d div s ^ length (encoder u)) dims"
    by blast
  from encode_levels_history [OF e] lv have "length ([Tensor (n # c # dims) v] @ h') = nb_levels u"
    by simp
  with e sb lv(1) show ?thesis
    by (simp add: Unet2_forward_def)
qed

lemma odd_encode:
  "Unet2_forward K0 ref_unet odd_input ''encode'' None
     = Inr (Encoded (Tensor [1, 64, 1, 1] ()) odd_history, None)"
  by code_simp

lemma odd_decode:
  "Unet2_forward K0 ref_unet (Tensor [1, 64, 1, 1] ()) ''decode'' (Some odd_history)
     = Inl TorchError"
  by code_simp

theorem encode_floors_spatial_extents_witness:
  "Unet2_init ref_args = Inr ref_unet \<and> inshape ref_args = Some [32, 32]
   \<and> infeats ref_args = Some 2 \<and> max_pool ref_args = IntPool 2 \<and> (0::nat) < 2
   \<and> length [33::nat, 33] = length [32::nat, 32]
   \<and> (2::nat) ^ (nb_levels ref_unet - 1) \<le> 33
   \<and> (0::nat) < 1 \<and> (0::nat) < 2 \<and> list_all positive_widths (encoder ref_unet)
   \<and> (\<exists>b h cb. Unet2_forward K0 ref_unet (Tensor (1 # 2 # [33, 33]) ()) ''encode'' None
                    = Inr (Encoded b h, None)
          \<and> shape b = 1 # cb # map (\<lambda>d. d div 2 ^ (nb_levels ref_unet - 1)) [33, 33]
          \<and> length h = nb_levels ref_unet)
   \<and> Unet2_forward K0 ref_unet odd_input ''encode'' None
        = Inr (Encoded (Tensor [1, 64, 1, 1] ()) odd_history, None)
   \<and> Unet2_forward K0 ref_unet (Tensor [1, 64, 1, 1] ()) ''decode'' (Some odd_history)
        = Inl TorchError"
proof -
  have a: "inshape ref_args = Some [32, 32]" and b: "infeats ref_args = Some 2"
    and c: "max_pool ref_args = IntPool 2" and d: "(0::nat) < 2"
    and e: "length [33::nat, 33] = length [32::nat, 32]"
    and f: "(2::nat) ^ (nb_levels ref_unet - 1) \<le> 33"
    and n: "(0::nat) < 1"
    and w: "list_all positive_widths (encoder ref_unet)"
    by (simp_all add: ref_args_def Unet2_defaults_def ref_unet_def ref_conv_def
                      positive_widths_def)
  from f have g: "\<forall>d\<in>set [33::nat, 33]. 2 ^ (nb_levels ref_unet - 1) \<le> d"
    by simp
  note t = encode_floors_spatial_extents [OF Unet2_init_ref a b c d e g n d w, of K0 "()" None]
  from Unet2_init_ref a b c d e f n d w t odd_encode odd_decode show ?thesis
    by (intro conjI)
qed

text \<open>
  C2 as stated fails: 33 is not divisible by \<open>2 ^ 5\<close>, and encode returns for a frame
  pair of 33 by 33 pixels, with a bottleneck of one pixel.
\<close>

theorem encode_accepts_indivisible_counterexample:
  "\<not> (2::nat) ^ 5 dvd 33
   \<and> Unet2_forward K0 ref_unet (Tensor [1, 2, 33, 33] ()) ''encode'' None
        = Inr (Encoded (Tensor [1, 64, 1, 1] ()) odd_history, None)"
  using odd_encode by (simp add: odd_input_def)

subsection \<open>The decoder\<close>

lemma upsample_shape_batched:
  assumes "length dims \<in> {1, 2, 3}" and "0 < s" and "list_all (\<lambda>d. 0 < d) dims"
  shows "upsample_shape s (n # c # dims) = Inr (n # c # map (\<lambda>d. d * s) dims)"
  using assms by (auto simp add: upsample_shape_def list_all_iff)

lemma cat_shape_channels:
  "cat_shape [n # c # dims, n # e # dims] (Suc 0) = Inr (n # (c + e) # dims)"
  by (simp add: cat_shape_def cat_skipped_def cat_compatible_def)

lemma decode_levels_chain:
  assumes up: "upsampling u = replicate N (Upsample s)" and s: "0 < s" and hr: "\<not> half_res u"
    and nd: "nd \<in> {1, 2, 3}"
  shows "dec_ok nd c ls sk \<Longrightarrow> lvl + length ls \<le> N \<Longrightarrow> length dims = nd \<Longrightarrow>
     list_all (\<lambda>d. 0 < d) dims \<Longrightarrow> tops_ok n s dims sk tops \<Longrightarrow> length tops = length ls \<Longrightarrow>
     list_all positive_widths ls \<Longrightarrow>
     \<exists>y. decode_levels K u lvl ls (Tensor (n # c # dims) v) (rest @ rev tops) = Inr (y, rest)
        \<and> shape y = n # dec_out c ls sk # map (\<lambda>d. d * s ^ length ls) dims"
proof (induction ls arbitrary: lvl c dims v sk tops)
  case Nil
  then show ?case by simp
next
  case (Cons convs ls)
  from Cons.prems obtain t ts where tops: "tops = t # ts" and lts: "length ts = length ls"
    by (cases tops) auto
  from Cons.prems obtain e sk' where sk: "sk = e # sk'"
    by (cases sk) auto
  from Cons.prems sk have ck: "chain_ok nd c convs"
    and dk: "dec_ok nd (chain_out c convs + e) ls sk'"
    by simp_all
  from Cons.prems tops sk have st: "shape t = n # e # map (\<lambda>d. d * s) dims"
    and tk: "tops_ok n s (map (\<lambda>d. d * s) dims) sk' ts"
    by simp_all
  from Cons.prems(4) have one: "list_all (\<lambda>d. 1 \<le> d) dims"
    by (simp add: list_all_iff Suc_le_eq)
  from Cons.prems have pc: "positive_widths convs" and pl: "list_all positive_widths ls"
    by simp_all
  from run_convs_chain [OF ck Cons.prems(3) one pc, of K n v] obtain v1 where
    x1: "run_convs K convs (Tensor (n # c # dims) v)
           = Inr (Tensor (n # chain_out c convs # dims) v1)"
    by blast
  from hr have sp: "has_skip (half_res u) (nb_levels u) lvl"
    by (simp add: has_skip_def)
  from Cons.prems up have ix: "py_index (upsampling u) lvl = Inr (Upsample s)"
    by (simp add: py_index_def)
  from Cons.prems(3) nd have "length dims \<in> {1, 2, 3}"
    by simp
  from upsample_shape_batched [OF this s Cons.prems(4)]
  have x2: "Upsample_forward K (Upsample s) (Tensor (n # chain_out c convs # dims) v1)
      = Inr (Tensor (n # chain_out c convs # map (\<lambda>d. d * s) dims) (up_val K s v1))"
    by (simp add: Upsample_forward_def)
  have pp: "py_pop (rest @ rev tops) = Inr (t, rest @ rev ts)"
    by (simp add: tops py_pop_def butlast_append)
  obtain cv where x3: "torch_cat K
      [Tensor (n # chain_out c convs # map (\<lambda>d. d * s) dims) (up_val K s v1), t] 1
      = Inr (Tensor (n # (chain_out c convs + e) # map (\<lambda>d. d * s) dims) cv)"
    using st by (simp add: torch_cat_def cat_shape_channels)
  from Cons.prems s have pos: "list_all (\<lambda>d. 0 < d) (map (\<lambda>d. d * s) dims)"
    by (simp add: list_all_iff)
  from Cons.prems have "Suc lvl + length ls \<le> N" "length (map (\<lambda>d. d * s) dims) = nd"
    by simp_all
  from Cons.IH [OF dk this pos tk lts pl, where v = cv]
  obtain y where
    r: "decode_levels K u (Suc lvl) ls
          (Tensor (n # (chain_out c convs + e) # map (\<lambda>d. d * s) dims) cv) (rest @ rev ts)
        = Inr (y, rest)"
    and sy: "shape y = n # dec_out (chain_out c convs + e) ls sk'
               # map (\<lambda>d. d * s ^ length ls) (map (\<lambda>d. d * s) dims)"
    by blast
  have "map (\<lambda>d. d * s ^ length ls) (map (\<lambda>d. d * s) dims)
      = map (\<lambda>d. d * s ^ length (convs # ls)) dims"
    by (simp add: mult.assoc)
  with sy sk have "shape y = n # dec_out c (convs # ls) sk # map (\<lambda>d. d * s ^ length (convs # ls)) dims"
    by simp
  moreover from x1 sp ix x2 pp x3 r
  have "decode_levels K u lvl (convs # ls) (Tensor (n # c # dims) v) (rest @ rev tops)
      = Inr (y, rest)"
    by simp
  ultimately show ?case by blast
qed

lemma build_remaining_chain:
  "build_remaining nd num nfs (Some c) = Inr (bs, p) \<Longrightarrow>
     chain_ok nd c bs \<and> p = Some (chain_out c bs)"
proof (induction nfs arbitrary: num c bs p)
  case Nil
  then show ?case by simp
next
  case (Cons nf nfs)
  from Cons.prems obtain b bs' where
    b: "ConvBlock_init (Remaining num) nd (Some c) nf 1 = Inr b"
    and r: "build_remaining nd (Suc num) nfs (Some nf) = Inr (bs', p)" and e: "bs = b # bs'"
    by (auto simp add: ebind_eq_Inr)
  from b have "cb_ndims b = nd \<and> in_channels b = c \<and> cb_stride b = 1 \<and> out_channels b = nf"
    by (auto simp add: ConvBlock_init_def)
  with Cons.IH [OF r] e show ?case by simp
qed

lemma build_decoder_chain:
  "build_decoder nd dec_nf k False nbl (map Some es) [lo..<lo + len] (Some c) = Inr (dec, p) \<Longrightarrow>
     dec_ok nd c dec (drop lo es) \<and> p = Some (dec_out c dec (drop lo es))"
proof (induction len arbitrary: lo c dec p)
  case 0
  then show ?case by simp
next
  case (Suc len)
  have u: "[lo..<lo + Suc len] = lo # [Suc lo..<Suc lo + len]"
    by (simp add: upt_conv_Cons)
  from Suc.prems [unfolded u] obtain convs q q' dec' where
    b: "build_convs (Decoder lo) nd dec_nf (lo * k) [0..<k] (Some c) = Inr (convs, q)"
    and a: "ebind (py_index (map Some es) lo) (py_add q) = Inr q'"
    and r: "build_decoder nd dec_nf k False nbl (map Some es) [Suc lo..<Suc lo + len] q'
              = Inr (dec', p)"
    and e: "dec = convs # dec'"
    by (auto simp add: ebind_eq_Inr has_skip_def)
  from build_convs_chain [OF b] have ck: "chain_ok nd c convs" and q: "q = Some (chain_out c convs)"
    by simp_all
  from a q have lo: "lo < length es" and q': "q' = Some (chain_out c convs + es ! lo)"
    by (auto simp add: ebind_eq_Inr py_index_def py_add_def split: if_splits)
  from lo have d: "drop lo es = es ! lo # drop (Suc lo) es"
    by (simp add: Cons_nth_drop_Suc)
  from Suc.IH [OF r [unfolded q']] ck e show ?case
    by (simp add: d)
qed

lemma Unet2_init_decoder:
  assumes "Unet2_init a = Inr u" and "inshape a = Some shp" and "infeats a = Some c"
    and "\<not> arg_half_res a"
  shows "dec_ok (length shp) (last (c # enc_nfs c (encoder u))) (decoder u)
           (rev (c # enc_nfs c (encoder u)))"
    and "chain_ok (length shp)
           (dec_out (last (c # enc_nfs c (encoder u))) (decoder u) (rev (c # enc_nfs c (encoder u))))
           (remaining u)"
    and "final_nf u = Some (chain_out
           (dec_out (last (c # enc_nfs c (encoder u))) (decoder u) (rev (c # enc_nfs c (encoder u))))
           (remaining u))"
proof -
  from assms obtain enc_nf dec_nf fc k nbl m enc nfs pe dec pd rm pf where
    be: "build_encoder (length shp) enc_nf k [0..<m] (Some c) = Inr (enc, nfs, pe)"
    and bd: "build_decoder (length shp) dec_nf k False nbl (rev (Some c # nfs)) [0..<m] pe
               = Inr (dec, pd)"
    and br: "build_remaining (length shp) 0 fc pd = Inr (rm, pf)"
    and u: "encoder u = enc" "decoder u = dec" "remaining u = rm" "final_nf u = pf"
    by (clarsimp simp add: Unet2_init_def ebind_eq_Inr Let_def split: if_splits)
  from build_encoder_chain [OF be] have nfs: "nfs = map Some (enc_nfs c enc)"
    and pe: "pe = Some (last (c # enc_nfs c enc))"
    by simp_all
  have "rev (Some c # nfs) = map Some (rev (c # enc_nfs c enc))"
    by (simp add: nfs rev_map)
  with bd pe have "build_decoder (length shp) dec_nf k False nbl
      (map Some (rev (c # enc_nfs c enc))) [0..<0 + m] (Some (last (c # enc_nfs c enc)))
      = Inr (dec, pd)"
    by simp
  from build_decoder_chain [OF this]
  have dk: "dec_ok (length shp) (last (c # enc_nfs c enc)) dec (rev (c # enc_nfs c enc))"
    and pd: "pd = Some (dec_out (last (c # enc_nfs c enc)) dec (rev (c # enc_nfs c enc)))"
    by simp_all
  from build_remaining_chain [OF br [unfolded pd]] dk u
  show "dec_ok (length shp) (last (c # enc_nfs c (encoder u))) (decoder u)
           (rev (c # enc_nfs c (encoder u)))"
    and "chain_ok (length shp)
           (dec_out (last (c # enc_nfs c (encoder u))) (decoder u) (rev (c # enc_nfs c (encoder u))))
           (remaining u)"
    and "final_nf u = Some (chain_out
           (dec_out (last (c # enc_nfs c (encoder u))) (decoder u) (rev (c # enc_nfs c (encoder u))))
           (remaining u))"
    by simp_all
qed

lemma tops_ok_snoc:
  "length ts = length sk1 \<Longrightarrow> tops_ok n s D (sk1 @ e # sk2) ts \<Longrightarrow>
     shape t = n # e # map (\<lambda>d. d * s ^ Suc (length ts)) D \<Longrightarrow>
     tops_ok n s D (sk1 @ e # sk2) (ts @ [t])"
proof (induction ts arbitrary: sk1 D)
  case Nil
  then show ?case by simp
next
  case (Cons t' ts)
  from Cons.prems obtain e' sk1' where sk1: "sk1 = e' # sk1'" and l: "length ts = length sk1'"
    by (cases sk1) auto
  from Cons.prems sk1 have st: "shape t' = n # e' # map (\<lambda>d. d * s) D"
    and tk: "tops_ok n s (map (\<lambda>d. d * s) D) (sk1' @ e # sk2) ts"
    by simp_all
  from Cons.prems have "shape t = n # e # map (\<lambda>d. d * s ^ Suc (length ts)) (map (\<lambda>d. d * s) D)"
    by (simp add: mult.assoc)
  from Cons.IH [OF l tk this] st sk1 show ?case
    by simp
qed

lemma hist_shapes_length: "length (hist_shapes n s dims cs) = length cs"
  by (induction cs arbitrary: dims) simp_all

lemma history_tops:
  "map shape h' = hist_shapes n s dims cs \<Longrightarrow> list_all (\<lambda>d. s ^ length cs dvd d) dims \<Longrightarrow>
     tops_ok n s (map (\<lambda>d. d div s ^ length cs) dims) (rev cs @ extra) (rev h')"
proof (induction cs arbitrary: dims h' extra)
  case Nil
  then show ?case by simp
next
  case (Cons c cs)
  from Cons.prems obtain t h'' where h': "h' = t # h''" and st: "shape t = n # c # dims"
    and sh: "map shape h'' = hist_shapes n s (map (\<lambda>d. d div s) dims) cs"
    by (cases h') auto
  from Cons.prems(2) have dv: "list_all (\<lambda>d. s ^ length cs dvd d) (map (\<lambda>d. d div s) dims)"
    by (auto simp add: list_all_iff dvd_div_iff_mult elim!: dvdE)
  from sh have l: "length (rev h'') = length (rev cs)"
    using hist_shapes_length [of n s "map (\<lambda>d. d div s) dims" cs]
    by (metis length_map length_rev)
  have dd: "map (\<lambda>d. d div s ^ length cs) (map (\<lambda>d. d div s) dims)
      = map (\<lambda>d. d div s ^ length (c # cs)) dims"
    by (simp add: div_mult2_eq)
  note tk = Cons.IH [OF sh dv, of "c # extra", unfolded dd]
  have "d div s ^ length (c # cs) * s ^ Suc (length (rev h'')) = d" if "d \<in> set dims" for d
    using that Cons.prems(2) l by (simp add: list_all_iff)
  then have "map (\<lambda>d. d * s ^ Suc (length (rev h'')))
      (map (\<lambda>d. d div s ^ length (c # cs)) dims) = dims"
    by (simp add: map_idI)
  with st have "shape t = n # c # map (\<lambda>d. d * s ^ Suc (length (rev h'')))
      (map (\<lambda>d. d div s ^ length (c # cs)) dims)"
    by simp
  from tops_ok_snoc [OF l tk this] show ?case
    by (simp add: h')
qed

lemma enc_nfs_length: "length (enc_nfs c ls) = length ls"
  by (induction ls arbitrary: c) simp_all

text \<open>
  C5, as the code has it. For every configuration that \<open>Unet2\<close> accepts with
  \<open>half_res\<close> off, a scalar pooling factor \<open>s \<ge> 1\<close>, a positive input feature count
  and positive widths of all its convolutions, and every input with a non-empty batch
  and the configured channel count whose spatial extents are positive and divisible by
  \<open>s\<close> to the number of pooling levels: encode returns, and decode of any tensor of the
  bottleneck's shape with the history of that encode returns a tensor with the batch
  size and the spatial extents of the input and \<open>final_nf\<close> channels, leaving the input
  on the history.
\<close>

theorem encode_decode_shape:
  assumes "Unet2_init a = Inr u" and "inshape a = Some shp" and "infeats a = Some c"
    and "max_pool a = IntPool s" and "0 < s" and "\<not> arg_half_res a"
    and "length dims = length shp" and "\<forall>d\<in>set dims. 0 < d \<and> s ^ (nb_levels u - 1) dvd d"
    and "0 < n" and "0 < c"
    and "list_all positive_widths (encoder u)" and "list_all positive_widths (decoder u)"
    and "positive_widths (remaining u)"
  shows "\<exists>b h f. Unet2_forward K u (Tensor (n # c # dims) v) ''encode'' None
                   = Inr (Encoded b h, None)
           \<and> final_nf u = Some f
           \<and> (\<forall>y. shape y = shape b \<longrightarrow>
                (\<exists>out. Unet2_forward K u y ''decode'' (Some h)
                         = Inr (Decoded out, Some [Tensor (n # c # dims) v])
                   \<and> shape out = n # f # dims))"
proof -
  define x where "x = Tensor (n # c # dims) v"
  define L where "L = nb_levels u - 1"
  define cs where "cs = enc_nfs c (encoder u)"
  define bd where "bd = map (\<lambda>d. d div s ^ L) dims"
  define pe where "pe = last (c # cs)"
  define pd where "pd = dec_out pe (decoder u) (rev (c # cs))"
  note enc = Unet2_init_encoder [OF assms(1-4)]
  note dec = Unet2_init_decoder [OF assms(1-3,6), folded cs_def, folded pe_def, folded pd_def]
  note lv = Unet2_init_levels [OF assms(1), folded L_def]
  have lcs: "length cs = L"
    by (simp add: cs_def enc_nfs_length lv)
  from assms(5) have sp: "0 < s ^ L"
    by simp
  from assms(8) have pos: "list_all (\<lambda>d. 0 < d) dims" and dv: "list_all (\<lambda>d. s ^ L dvd d) dims"
    by (simp_all add: list_all_iff L_def)
  then have ge: "list_all (\<lambda>d. s ^ L \<le> d) dims"
    by (auto simp add: list_all_iff intro: dvd_imp_le)
  from pos have one: "list_all (\<lambda>d. 1 \<le> d) dims"
    by (simp add: list_all_iff Suc_le_eq)
  have le: "0 + length (encoder u) \<le> nb_levels u" and ld: "0 + length (decoder u) \<le> nb_levels u"
    using lv by (simp_all add: L_def)
  from ge lv have ge': "list_all (\<lambda>d. s ^ length (encoder u) \<le> d) dims"
    by simp
  from encode_levels_chain [OF enc(2) assms(5) enc(1) le assms(7) ge' assms(11), of K n v "[x]"]
  obtain b h' where
    e: "encode_levels K u 0 (encoder u) x [x] = Inr (b, [x] @ h')"
    and sb: "shape b = n # pe # bd"
    and sh: "map shape h' = hist_shapes n s dims cs"
    unfolding x_def pe_def cs_def bd_def lv(1) by blast
  have lh: "length h' = L"
    using sh hist_shapes_length [of n s dims cs] lcs by (metis length_map)
  from history_tops [OF sh, of "[c]"] dv lcs
  have tk: "tops_ok n s bd (rev (c # cs)) (rev h')"
    by (simp add: bd_def)
  have bpos: "list_all (\<lambda>d. 0 < d) bd"
    using ge sp by (auto simp add: bd_def list_all_iff div_greater_zero_iff)
  have restore: "map (\<lambda>d. d * s ^ L) bd = dims"
    unfolding bd_def map_map o_def using dv by (intro map_idI) (auto simp add: list_all_iff)
  from run_convs_chain [OF dec(2) _ _ assms(13), of dims] assms(7) one
  have rc: "\<exists>w'. run_convs K (remaining u) (Tensor (n # pd # dims) w)
              = Inr (Tensor (n # chain_out pd (remaining u) # dims) w')" for w
    by simp
  from lv assms(6) have nh: "\<not> half_res u"
    by simp
  have d: "\<exists>out. Unet2_forward K u y ''decode'' (Some ([x] @ h'))
                   = Inr (Decoded out, Some [x])
             \<and> shape out = n # chain_out pd (remaining u) # dims"
    if y: "shape y = shape b" for y
  proof -
    from y sb have yt: "y = Tensor (n # pe # bd) (val y)"
      by (cases y) simp
    have lb: "length bd = length shp" and lt: "length (rev h') = length (decoder u)"
      using assms(7) lh lv by (simp_all add: bd_def)
    from decode_levels_chain [OF enc(3) assms(5) nh enc(4) dec(1) ld lb bpos tk lt assms(12),
           of K "val y" "[x]"]
    obtain z where dl: "decode_levels K u 0 (decoder u) (Tensor (n # pe # bd) (val y)) ([x] @ h')
        = Inr (z, [x])" and sz: "shape z = n # pd # map (\<lambda>d. d * s ^ L) bd"
      unfolding pd_def lv(2) rev_rev_ident by blast
    from sz restore have "z = Tensor (n # pd # dims) (val z)"
      by (cases z) simp
    with rc [of "val z"] obtain w' where
      "run_convs K (remaining u) z = Inr (Tensor (n # chain_out pd (remaining u) # dims) w')"
      by auto
    with dl yt show ?thesis
      by (simp add: Unet2_forward_def)
  qed
  from e have "Unet2_forward K u x ''encode'' None = Inr (Encoded b ([x] @ h'), None)"
    by (simp add: Unet2_forward_def)
  with d dec(3) show ?thesis
    unfolding x_def by blast
qed

theorem encode_decode_shape_witness:
  "Unet2_init ref_args = Inr ref_unet \<and> inshape ref_args = Some [32, 32]
   \<and> infeats ref_args = Some 2 \<and> max_pool ref_args = IntPool 2 \<and> (0::nat) < 2
   \<and> \<not> arg_half_res ref_args \<and> length [32::nat, 32] = length [32::nat, 32]
   \<and> (0::nat) < 32 \<and> (2::nat) ^ (nb_levels ref_unet - 1) dvd 32
   \<and> (0::nat) < 1
   \<and> list_all positive_widths (encoder ref_unet)
   \<and> list_all positive_widths (decoder ref_unet)
   \<and> positive_widths (remaining ref_unet)
   \<and> Unet2_forward K0 ref_unet (Tensor (1 # 2 # [32, 32]) ()) ''encode'' None
        = Inr (Encoded (Tensor [1, 64, 1, 1] ()) ref_history, None)
   \<and> final_nf ref_unet = Some 2
   \<and> shape (Tensor [1, 64, 1, 1] ()) = [1, 64, 1, 1]
   \<and> (\<exists>out. Unet2_forward K0 ref_unet (Tensor [1, 64, 1, 1] ()) ''decode'' (Some ref_history)
                = Inr (Decoded out, Some [Tensor (1 # 2 # [32, 32]) ()])
          \<and> shape out = 1 # 2 # [32, 32])"
proof -
  have a: "inshape ref_args = Some [32, 32]" and b: "infeats ref_args = Some 2"
    and c: "max_pool ref_args = IntPool 2" and d: "(0::nat) < 2"
    and e: "\<not> arg_half_res ref_args" and f: "length [32::nat, 32] = length [32::nat, 32]"
    and p: "(0::nat) < 32" and n: "(0::nat) < 1"
    by (simp_all add: ref_args_def Unet2_defaults_def)
  have we: "list_all positive_widths (encoder ref_unet)"
    and wd: "list_all positive_widths (decoder ref_unet)"
    and wr: "positive_widths (remaining ref_unet)"
    by (simp_all add: ref_unet_def ref_conv_def positive_widths_def)
  have "(2::nat) ^ 5 dvd 32"
    by simp
  then have q: "(2::nat) ^ (nb_levels ref_unet - 1) dvd 32"
    by (simp add: ref_unet_def)
  from p q have g: "\<forall>d\<in>set [32::nat, 32]. 0 < d \<and> 2 ^ (nb_levels ref_unet - 1) dvd d"
    by simp
  have en: "Unet2_forward K0 ref_unet (Tensor (1 # 2 # [32, 32]) ()) ''encode'' None
        = Inr (Encoded (Tensor [1, 64, 1, 1] ()) ref_history, None)"
    using ref_encode by (simp only: ref_input_def)
  have fn: "final_nf ref_unet = Some 2"
    by (simp add: ref_unet_def)
  have sh: "shape (Tensor [1, 64, 1, 1] ()) = [1, 64, 1, 1]"
    by simp
  from encode_decode_shape [OF Unet2_init_ref a b c d e f g n d we wd wr, of K0 "()"]
  obtain b' h' f' where
    1: "Unet2_forward K0 ref_unet (Tensor (1 # 2 # [32, 32]) ()) ''encode'' None
          = Inr (Encoded b' h', None)"
    and 2: "final_nf ref_unet = Some f'"
    and 3: "\<forall>y. shape y = shape b' \<longrightarrow>
               (\<exists>out. Unet2_forward K0 ref_unet y ''decode'' (Some h')
                        = Inr (Decoded out, Some [Tensor (1 # 2 # [32, 32]) ()])
                  \<and> shape out = 1 # f' # [32, 32])"
    by blast
  from 1 en have "b' = Tensor [1, 64, 1, 1] ()" "h' = ref_history"
    by simp_all
  moreover from 2 fn have "f' = 2"
    by simp
  ultimately have
    "\<exists>out. Unet2_forward K0 ref_unet (Tensor [1, 64, 1, 1] ()) ''decode'' (Some ref_history)
                = Inr (Decoded out, Some [Tensor (1 # 2 # [32, 32]) ()])
          \<and> shape out = 1 # 2 # [32, 32]"
    using 3 by blast
  with Unet2_init_ref a b c d e f p q n we wd wr en fn sh show ?thesis
    by (intro conjI)
qed

text \<open>
  C5 as stated fails: with \<open>half_res\<close> set, the last decoder level is not upsampled, and
  the output for a frame pair of 32 by 32 pixels has 16 by 16 pixels.
\<close>

lemma Unet2_init_half: "Unet2_init half_args = Inr half_unet"
  by code_simp

lemma half_encode:
  "Unet2_forward K0 half_unet ref_input ''encode'' None
     = Inr (Encoded (Tensor [1, 64, 1, 1] ()) ref_history, None)"
  by code_simp

lemma half_decode:
  "Unet2_forward K0 half_unet (Tensor [1, 64, 1, 1] ()) ''decode'' (Some ref_history)
     = Inr (Decoded (Tensor [1, 2, 16, 16] ()), Some (take 2 ref_history))"
  by code_simp

theorem half_res_output_counterexample:
  "Unet2_init (ref_args\<lparr>arg_half_res := True\<rparr>) = Inr half_unet
   \<and> final_nf half_unet = Some 2
   \<and> Unet2_forward K0 half_unet (Tensor [1, 2, 32, 32] ()) ''encode'' None
        = Inr (Encoded (Tensor [1, 64, 1, 1] ()) ref_history, None)
   \<and> Unet2_forward K0 half_unet (Tensor [1, 64, 1, 1] ()) ''decode'' (Some ref_history)
        = Inr (Decoded (Tensor [1, 2, 16, 16] ()), Some (take 2 ref_history))
   \<and> [1, 2, 16, 16] \<noteq> [1, 2, 32, 32 :: nat]"
proof -
  have i: "Unet2_init (ref_args\<lparr>arg_half_res := True\<rparr>) = Inr half_unet"
    using Unet2_init_half by (simp only: half_args_def)
  have f: "final_nf half_unet = Some 2"
    by (simp add: half_unet_def ref_unet_def)
  have e: "Unet2_forward K0 half_unet (Tensor [1, 2, 32, 32] ()) ''encode'' None
        = Inr (Encoded (Tensor [1, 64, 1, 1] ()) ref_history, None)"
    using half_encode by (simp only: ref_input_def)
  have n: "[1, 2, 16, 16] \<noteq> [1, 2, 32, 32 :: nat]"
    by simp
  from i f e half_decode n show ?thesis
    by (intro conjI)
qed

end
